theory Spec2Isabelle
  imports Main "HOL-Library.Log_Nat"
begin

section \<open>JavaScript numbers\<close>

text \<open>
  A JavaScript Number is an IEEE 754 binary64 value. The finite ones are rational
  numbers, so a Number is modelled as a rational, one of the two infinities, or NaN.
  The two zeros are identified: the program only applies \<open>===\<close>, \<open><=\<close>, \<open>isNaN\<close>,
  \<open>*\<close>, \<open>+\<close> and the Date constructor to its numbers, and none of them tells
  \<open>-0\<close> from \<open>+0\<close>.

  Every arithmetic result is the exact rational result rounded to the nearest binary64
  value, ties to even (\<open>round_double\<close>): 53 significant bits, least exponent
  \<open>-1074\<close>, overflow to an infinity from \<open>2 ^ 1024\<close> on.
\<close>

datatype jsnum = Fin rat | PosInf | NegInf | NaN

definition ilog2 :: "rat \<Rightarrow> int" where
  \<comment> \<open>\<open>\<lfloor>log\<^sub>2 a\<rfloor>\<close> for \<open>a > 0\<close>, from the bit lengths of numerator and denominator.\<close>
  "ilog2 a = (let (p, q) = quotient_of a; d = bitlen p - bitlen q
              in if (2::rat) powi d \<le> a then d else d - 1)"

definition round_half_even :: "rat \<Rightarrow> int" where
  "round_half_even x =
     (let f = \<lfloor>x\<rfloor>; d = x - of_int f
      in if d < 1 / 2 then f else if 1 / 2 < d then f + 1
         else if even f then f else f + 1)"

definition round_double :: "rat \<Rightarrow> jsnum" where
  "round_double x =
     (if x = 0 then Fin 0
      else let a = \<bar>x\<bar>;
               e = max (ilog2 a - 52) (- 1074);
               r = of_int (round_half_even (a / 2 powi e)) * 2 powi e
           in if 2 ^ 1024 \<le> r then (if 0 < x then PosInf else NegInf)
              else Fin (sgn x * r))"

fun js_mul :: "jsnum \<Rightarrow> jsnum \<Rightarrow> jsnum" where
  "js_mul NaN _ = NaN"
| "js_mul _ NaN = NaN"
| "js_mul (Fin a) (Fin b) = round_double (a * b)"
| "js_mul (Fin a) PosInf = (if a = 0 then NaN else if 0 < a then PosInf else NegInf)"
| "js_mul (Fin a) NegInf = (if a = 0 then NaN else if 0 < a then NegInf else PosInf)"
| "js_mul PosInf (Fin b) = (if b = 0 then NaN else if 0 < b then PosInf else NegInf)"
| "js_mul NegInf (Fin b) = (if b = 0 then NaN else if 0 < b then NegInf else PosInf)"
| "js_mul PosInf PosInf = PosInf"
| "js_mul PosInf NegInf = NegInf"
| "js_mul NegInf PosInf = NegInf"
| "js_mul NegInf NegInf = PosInf"

fun js_add :: "jsnum \<Rightarrow> jsnum \<Rightarrow> jsnum" where
  "js_add NaN _ = NaN"
| "js_add _ NaN = NaN"
| "js_add (Fin a) (Fin b) = round_double (a + b)"
| "js_add PosInf NegInf = NaN"
| "js_add NegInf PosInf = NaN"
| "js_add PosInf _ = PosInf"
| "js_add _ PosInf = PosInf"
| "js_add NegInf _ = NegInf"
| "js_add _ NegInf = NegInf"

fun js_le :: "jsnum \<Rightarrow> jsnum \<Rightarrow> bool" where
  \<comment> \<open>\<open>a <= b\<close>: false as soon as an operand is NaN.\<close>
  "js_le NaN _ = False"
| "js_le _ NaN = False"
| "js_le (Fin a) (Fin b) = (a \<le> b)"
| "js_le NegInf _ = True"
| "js_le _ PosInf = True"
| "js_le PosInf _ = False"
| "js_le _ NegInf = False"

definition isNaN :: "jsnum \<Rightarrow> bool" where
  "isNaN x = (x = NaN)"

definition is_integer :: "jsnum \<Rightarrow> bool" where
  \<comment> \<open>A finite Number with no fractional part.\<close>
  "is_integer x = (case x of Fin r \<Rightarrow> r = of_int \<lfloor>r\<rfloor> | _ \<Rightarrow> False)"


section \<open>JavaScript strings\<close>

text \<open>
  A JavaScript string is a sequence of UTF-16 code units; a code unit is modelled as a
  natural number. \<open>js\<close> embeds a literal.
\<close>

type_synonym jsstring = "nat list"

definition js :: "string \<Rightarrow> jsstring" where
  "js s = map of_char s"

definition is_ws :: "nat \<Rightarrow> bool" where
  \<comment> \<open>WhiteSpace and LineTerminator code points, the ones \<open>trim\<close> and \<open>parseInt\<close> strip.\<close>
  "is_ws c = (c \<in> {9, 10, 11, 12, 13, 32, 160, 5760, 8232, 8233, 8239, 8287, 12288, 65279}
              \<or> (8192 \<le> c \<and> c \<le> 8202))"

definition trim :: "jsstring \<Rightarrow> jsstring" where
  "trim s = rev (dropWhile is_ws (rev (dropWhile is_ws s)))"

definition endsWith :: "jsstring \<Rightarrow> jsstring \<Rightarrow> bool" where
  "endsWith s t = (length t \<le> length s \<and> drop (length s - length t) s = t)"

definition digit_val :: "nat \<Rightarrow> nat" where
  \<comment> \<open>The value of a code unit as a digit: \<open>0-9\<close>, \<open>a-z\<close>, \<open>A-Z\<close>; 36 for anything else.\<close>
  "digit_val c =
     (if 48 \<le> c \<and> c \<le> 57 then c - 48
      else if 97 \<le> c \<and> c \<le> 122 then c - 87
      else if 65 \<le> c \<and> c \<le> 90 then c - 55
      else 36)"

definition is_digit :: "nat \<Rightarrow> nat \<Rightarrow> bool" where
  "is_digit R c = (digit_val c < R)"

definition digits_value :: "nat \<Rightarrow> jsstring \<Rightarrow> nat" where
  "digits_value R Z = foldl (\<lambda>acc c. acc * R + digit_val c) 0 Z"

definition parseInt :: "jsstring \<Rightarrow> jsnum" where
  \<comment> \<open>\<open>parseInt(string)\<close> with no radix argument: leading white space is skipped, an
      optional sign is read, a prefix \<open>0x\<close> or \<open>0X\<close> selects radix 16, the longest run of
      digits of the radix is the value, and an empty run gives NaN. The value is the
      Number nearest to the mathematical integer (also for a run of more than 20
      significant digits, where the standard allows an approximation).\<close>
  "parseInt inputString =
     (let S = dropWhile is_ws inputString;
          sign = (case S of c # _ \<Rightarrow> if c = 45 then - 1 else 1 | [] \<Rightarrow> (1::int));
          S1 = (case S of c # cs \<Rightarrow> if c = 43 \<or> c = 45 then cs else S | [] \<Rightarrow> S);
          hex = (take 2 S1 = [48, 120] \<or> take 2 S1 = [48, 88]);
          R = (if hex then 16 else 10);
          S2 = (if hex then drop 2 S1 else S1);
          Z = takeWhile (is_digit R) S2
      in if Z = [] then NaN
         else round_double (of_int (sign * int (digits_value R Z))))"


section \<open>JavaScript values and their conversion to strings\<close>

text \<open>
  The values a JSON request body can hold, and \<open>undefined\<close> for an absent field.
\<close>

datatype jsval =
    JUndefined
  | JNull
  | JBool bool
  | JNum jsnum
  | JStr jsstring
  | JArr "jsval list"
  | JObj "(jsstring \<times> jsval) list"

datatype exn = TypeError

fun dec :: "nat \<Rightarrow> jsstring" where
  "dec n = (if n < 10 then [48 + n] else dec (n div 10) @ [48 + n mod 10])"

declare dec.simps [simp del]

definition ilog10 :: "rat \<Rightarrow> int" where
  \<comment> \<open>\<open>\<lfloor>log\<^sub>1\<^sub>0 a\<rfloor>\<close> for \<open>a > 0\<close> in the range of the binary64 values.\<close>
  "ilog10 a = (let t = (ilog2 a * 30103) div 100000
               in if (10::rat) powi (t + 1) \<le> a then t + 1
                  else if (10::rat) powi t \<le> a then t else t - 1)"

definition roundtrips :: "rat \<Rightarrow> int \<Rightarrow> int \<Rightarrow> bool" where
  "roundtrips x s e = (round_double (of_int s * 10 powi e) = Fin x)"

fun shortest :: "rat \<Rightarrow> int \<Rightarrow> nat \<Rightarrow> nat \<Rightarrow> int \<times> int" where
  \<comment> \<open>The digits \<open>s\<close> and the position \<open>n\<close> of Number::toString: the least number \<open>k\<close>
      of digits such that \<open>s * 10 ^ (n - k)\<close> reads back as \<open>x\<close>, the nearest such \<open>s\<close>,
      the even one of two equally near.\<close>
  "shortest x n k 0 = (\<lfloor>x / 10 powi (n - int k)\<rfloor>, n)"
| "shortest x n k (Suc fuel) =
     (let e = n - int k;
          lo = \<lfloor>x / 10 powi e\<rfloor>;
          hi = \<lceil>x / 10 powi e\<rceil>;
          dlo = x - of_int lo * 10 powi e;
          dhi = of_int hi * 10 powi e - x;
          oklo = roundtrips x lo e;
          okhi = roundtrips x hi e
      in if oklo \<and> (\<not> okhi \<or> dlo < dhi \<or> (dlo = dhi \<and> even lo)) then (lo, n)
         else if okhi then (if hi = 10 ^ k then (10 ^ (k - 1), n + 1) else (hi, n))
         else shortest x n (Suc k) fuel)"

definition positive_to_string :: "rat \<Rightarrow> jsstring" where
  "positive_to_string x =
     (let (s, n) = shortest x (ilog10 x + 1) 1 20;
          digits = dec (nat s);
          k = int (length digits)
      in if k \<le> n \<and> n \<le> 21 then digits @ replicate (nat (n - k)) 48
         else if 0 < n \<and> n \<le> 21 then take (nat n) digits @ [46] @ drop (nat n) digits
         else if - 6 < n \<and> n \<le> 0 then [48, 46] @ replicate (nat (- n)) 48 @ digits
         else let ex = [101, if n - 1 < 0 then 45 else 43] @ dec (nat \<bar>n - 1\<bar>)
              in if k = 1 then digits @ ex
                 else take 1 digits @ [46] @ drop 1 digits @ ex)"

definition number_to_string :: "jsnum \<Rightarrow> jsstring" where
  \<comment> \<open>Number::toString, radix 10.\<close>
  "number_to_string x =
     (case x of
        NaN \<Rightarrow> js ''NaN''
      | PosInf \<Rightarrow> js ''Infinity''
      | NegInf \<Rightarrow> js ''-Infinity''
      | Fin r \<Rightarrow> if r = 0 then js ''0''
                 else if r < 0 then 45 # positive_to_string (- r)
                 else positive_to_string r)"

text \<open>
  \<open>String(v)\<close>. A plain object uses \<open>Object.prototype.toString\<close>, unless it has an
  own property \<open>toString\<close>: a value of a JSON body is not callable, the inherited
  \<open>valueOf\<close> returns the object itself, and the conversion throws a TypeError. An array
  joins its elements with commas, \<open>null\<close> and \<open>undefined\<close> elements as empty strings.
\<close>

fun to_string :: "jsval \<Rightarrow> exn + jsstring"
  and join :: "jsval list \<Rightarrow> exn + jsstring"
  and element :: "jsval \<Rightarrow> exn + jsstring" where
  "to_string JUndefined = Inr (js ''undefined'')"
| "to_string JNull = Inr (js ''null'')"
| "to_string (JBool b) = Inr (if b then js ''true'' else js ''false'')"
| "to_string (JNum x) = Inr (number_to_string x)"
| "to_string (JStr s) = Inr s"
| "to_string (JArr xs) = join xs"
| "to_string (JObj kvs) =
     (if js ''toString'' \<in> set (map fst kvs) then Inl TypeError
      else Inr (js ''[object Object]''))"
| "join [] = Inr []"
| "join [x] = element x"
| "join (x # y # ys) =
     (case element x of
        Inl e \<Rightarrow> Inl e
      | Inr s \<Rightarrow> (case join (y # ys) of Inl e \<Rightarrow> Inl e | Inr t \<Rightarrow> Inr (s @ [44] @ t)))"
| "element JUndefined = Inr []"
| "element JNull = Inr []"
| "element v = to_string v"


section \<open>The duration parser\<close>

definition parseReminderTime :: "jsval \<Rightarrow> exn + jsnum option" where
  \<comment> \<open>\<open>None\<close> is the \<open>null\<close> the function returns for a text with no number.\<close>
  "parseReminderTime timeStr =
     (case timeStr of
        JNum x \<Rightarrow> Inr (Some x)
      | _ \<Rightarrow>
        (case to_string timeStr of
           Inl e \<Rightarrow> Inl e
         | Inr str \<Rightarrow>
             let s = trim str;
                 v = parseInt s
             in if isNaN v then Inr None
                else if endsWith s (js ''m'') then Inr (Some v)
                else if endsWith s (js ''h'') then Inr (Some (js_mul v (Fin 60)))
                else if endsWith s (js ''d'') then Inr (Some (js_mul (js_mul v (Fin 24)) (Fin 60)))
                else Inr (Some v)))"


section \<open>The schedule calculator\<close>

text \<open>
  A Date holds a time value: a whole number of milliseconds since the epoch, or NaN
  (an invalid date). The constructor \<open>new Date(v)\<close> clips a Number \<open>v\<close>: a value that
  is not finite or lies beyond \<open>8.64e15\<close> gives the invalid date, any other value is
  truncated towards zero.
\<close>

datatype jsdate = Date int | InvalidDate

definition to_integer :: "rat \<Rightarrow> int" where
  "to_integer t = (if 0 \<le> t then \<lfloor>t\<rfloor> else \<lceil>t\<rceil>)"

definition new_Date :: "jsnum \<Rightarrow> jsdate" where
  "new_Date v =
     (case v of
        Fin t \<Rightarrow> if \<bar>t\<bar> \<le> 8640000000000000 then Date (to_integer t) else InvalidDate
      | _ \<Rightarrow> InvalidDate)"

definition calculateReminderTime :: "int \<Rightarrow> jsnum \<Rightarrow> jsdate" where
  \<comment> \<open>The first argument is the clock reading of \<open>new Date()\<close>, the time value \<open>now.getTime()\<close>.\<close>
  "calculateReminderTime now minutes =
     new_Date (js_add (Fin (of_int now)) (js_mul (js_mul minutes (Fin 60)) (Fin 1000)))"


section \<open>The store, the mail transport and the environment\<close>

text \<open>
  A document of the \<open>Reminder\<close> collection, with the paths of \<open>ReminderSchema\<close> and the
  \<open>_id\<close> the store keys it by.
\<close>

record reminder =
  rid :: nat
  email :: jsstring
  problemUrl :: jsstring
  problemTitle :: "jsstring option"
  scheduledFor :: int
  sent :: bool
  createdAt :: int

text \<open>
  A mail handed to the transport. The body is one of the two templates of the program;
  the constructors keep the values the template interpolates.
\<close>

datatype html =
    ConfirmationHtml jsstring jsstring jsstring
  | ReviewHtml jsstring jsstring

record mail =
  mail_from :: "jsstring option"
  mail_to :: jsstring
  subject :: jsstring
  html :: html

text \<open>
  The calls a handler makes to the store and to the transport, in the order it makes
  them, whether they succeed or not.
\<close>

datatype call = Find int | SendMail mail | Save reminder

record world =
  store :: "reminder list"
  outbox :: "mail list"
  calls :: "call list"

text \<open>
  What the surroundings decide during one request: the environment variables, the
  clock readings, the locale formatting of a date, and whether each call to the
  transport or the store succeeds (\<open>mail_ok k\<close> and \<open>save_ok k\<close> for the \<open>k\<close>-th call of
  the request, counted from 0).
\<close>

record env =
  process_env :: "string \<Rightarrow> jsstring option"
  now :: int
  date_now :: int
  toLocaleString :: "jsdate \<Rightarrow> jsstring"
  mail_ok :: "nat \<Rightarrow> bool"
  save_ok :: "nat \<Rightarrow> bool"
  find_ok :: bool

text \<open>
  The request body of the intake handler. \<open>email\<close>, \<open>problemUrl\<close> and \<open>problemTitle\<close>
  are strings when present, as the interface documents them; \<open>reminderMinutes\<close> is any
  value.
\<close>

record request =
  req_email :: "jsstring option"
  req_problemUrl :: "jsstring option"
  req_problemTitle :: "jsstring option"
  req_reminderMinutes :: jsval

datatype body =
    MissingRequiredFields
  | InvalidReminderTime
  | FailedToSetReminder
  | ReminderSet jsstring
  | Unauthorized
  | FailedToProcessReminders
  | Processed nat

record response =
  status :: nat
  body :: body

definition respond :: "nat \<Rightarrow> body \<Rightarrow> response" where
  "respond st b = \<lparr>status = st, body = b\<rparr>"

fun truthy :: "jsval \<Rightarrow> bool" where
  "truthy JUndefined = False"
| "truthy JNull = False"
| "truthy (JBool b) = b"
| "truthy (JNum x) = (x \<noteq> NaN \<and> x \<noteq> Fin 0)"
| "truthy (JStr s) = (s \<noteq> [])"
| "truthy (JArr xs) = True"
| "truthy (JObj kvs) = True"

definition or_default :: "jsstring option \<Rightarrow> jsstring \<Rightarrow> jsstring" where
  \<comment> \<open>\<open>f || d\<close> for a string field that may be absent: the empty string is falsy.\<close>
  "or_default f d = (case f of None \<Rightarrow> d | Some s \<Rightarrow> if s = [] then d else s)"

definition fresh_id :: "reminder list \<Rightarrow> nat" where
  \<comment> \<open>The \<open>_id\<close> of a new document: one that no stored document has.\<close>
  "fresh_id docs = Suc (fold max (map rid docs) 0)"


section \<open>The intake handler\<close>

definition confirmationMail :: "env \<Rightarrow> jsstring \<Rightarrow> jsstring \<Rightarrow> jsstring option \<Rightarrow> jsstring \<Rightarrow> mail" where
  "confirmationMail e em url title formattedScheduledTime =
     \<lparr>mail_from = process_env e ''MAIL_USER'',
      mail_to = em,
      subject = js ''LeetCode Reminder Confirmation'',
      html = ConfirmationHtml (or_default title (js ''LeetCode Problem'')) url
               formattedScheduledTime\<rparr>"

definition new_Reminder :: "env \<Rightarrow> jsstring \<Rightarrow> jsstring \<Rightarrow> jsstring option \<Rightarrow> int \<Rightarrow> reminder list \<Rightarrow> reminder" where
  \<comment> \<open>\<open>new Reminder({email, problemUrl, problemTitle, scheduledFor})\<close>: \<open>sent\<close> and
      \<open>createdAt\<close> take the defaults of the schema.\<close>
  "new_Reminder e em url title t docs =
     \<lparr>rid = fresh_id docs,
      email = em,
      problemUrl = url,
      problemTitle = title,
      scheduledFor = t,
      sent = False,
      createdAt = date_now e\<rparr>"

definition schedule :: "env \<Rightarrow> jsstring \<Rightarrow> jsstring \<Rightarrow> jsstring option \<Rightarrow> jsnum \<Rightarrow> world \<Rightarrow> response \<times> world" where
  \<comment> \<open>The handler from \<open>calculateReminderTime(minutes)\<close> on. A document whose required
      \<open>scheduledFor\<close> is an invalid date fails validation in \<open>save()\<close> before anything
      is sent to the store: the exception is caught, and no \<open>Save\<close> call is recorded.\<close>
  "schedule e em url title minutes w =
     (let scheduled = calculateReminderTime (now e) minutes;
          formattedScheduledTime = toLocaleString e scheduled;
          m = confirmationMail e em url title formattedScheduledTime;
          w1 = w\<lparr>calls := calls w @ [SendMail m]\<rparr>
      in if \<not> mail_ok e 0 then (respond 500 FailedToSetReminder, w1)
         else
           let w2 = w1\<lparr>outbox := outbox w1 @ [m]\<rparr>
           in case scheduled of
                InvalidDate \<Rightarrow> (respond 500 FailedToSetReminder, w2)
              | Date t \<Rightarrow>
                  let r = new_Reminder e em url title t (store w2);
                      w3 = w2\<lparr>calls := calls w2 @ [Save r]\<rparr>
                  in if \<not> save_ok e 0 then (respond 500 FailedToSetReminder, w3)
                     else (respond 200 (ReminderSet formattedScheduledTime),
                           w3\<lparr>store := store w3 @ [r]\<rparr>))"

definition set_reminder :: "env \<Rightarrow> request \<Rightarrow> world \<Rightarrow> response \<times> world" where
  \<comment> \<open>\<open>POST /api/set-reminder\<close>. Every exception is caught and answered with 500.\<close>
  "set_reminder e req w =
     (case (req_email req, req_problemUrl req) of
        (Some em, Some url) \<Rightarrow>
          if em = [] \<or> url = [] \<or> \<not> truthy (req_reminderMinutes req)
          then (respond 400 MissingRequiredFields, w)
          else (case parseReminderTime (req_reminderMinutes req) of
                  Inl ex \<Rightarrow> (respond 500 FailedToSetReminder, w)
                | Inr None \<Rightarrow> (respond 400 InvalidReminderTime, w)
                | Inr (Some minutes) \<Rightarrow>
                    if js_le minutes (Fin 0) then (respond 400 InvalidReminderTime, w)
                    else schedule e em url (req_problemTitle req) minutes w)
      | _ \<Rightarrow> (respond 400 MissingRequiredFields, w))"


section \<open>The sweep handler\<close>

definition reviewMail :: "env \<Rightarrow> reminder \<Rightarrow> mail" where
  "reviewMail e r =
     \<lparr>mail_from = process_env e ''MAIL_USER'',
      mail_to = email r,
      subject = js ''Time to Review Your LeetCode Problem!'',
      html = ReviewHtml (or_default (problemTitle r) (js ''LeetCode Problem'')) (problemUrl r)\<rparr>"

definition mark_sent :: "nat \<Rightarrow> reminder list \<Rightarrow> reminder list" where
  \<comment> \<open>\<open>reminder.save()\<close> of a fetched document whose only modified path is \<open>sent\<close>.\<close>
  "mark_sent i docs = map (\<lambda>d. if rid d = i then d\<lparr>sent := True\<rparr> else d) docs"

fun process :: "env \<Rightarrow> nat \<Rightarrow> reminder list \<Rightarrow> world \<Rightarrow> bool \<times> world" where
  \<comment> \<open>The loop over \<open>dueReminders\<close>, from the \<open>k\<close>-th one on; \<open>False\<close> when a call threw.\<close>
  "process e k [] w = (True, w)"
| "process e k (r # rs) w =
     (let m = reviewMail e r;
          w1 = w\<lparr>calls := calls w @ [SendMail m]\<rparr>
      in if \<not> mail_ok e k then (False, w1)
         else
           let w2 = w1\<lparr>outbox := outbox w1 @ [m], calls := calls w1 @ [Save (r\<lparr>sent := True\<rparr>)]\<rparr>
           in if \<not> save_ok e k then (False, w2)
              else process e (Suc k) rs (w2\<lparr>store := mark_sent (rid r) (store w2)\<rparr>))"

definition due :: "int \<Rightarrow> reminder \<Rightarrow> bool" where
  \<comment> \<open>The query \<open>{scheduledFor: {$lte: now}, sent: false}\<close>.\<close>
  "due t r = (scheduledFor r \<le> t \<and> \<not> sent r)"

definition check_reminders :: "env \<Rightarrow> jsstring option \<Rightarrow> world \<Rightarrow> response \<times> world" where
  \<comment> \<open>\<open>POST /api/check-reminders\<close>; the second argument is the header \<open>x-cron-secret\<close>.\<close>
  "check_reminders e secret w =
     (if secret \<noteq> Some (js ''Sanjeev'') then (respond 401 Unauthorized, w)
      else
        let w1 = w\<lparr>calls := calls w @ [Find (now e)]\<rparr>
        in if \<not> find_ok e then (respond 500 FailedToProcessReminders, w1)
           else
             let dueReminders = filter (due (now e)) (store w1);
                 (ok, w2) = process e 0 dueReminders w1
             in if ok then (respond 200 (Processed (length dueReminders)), w2)
                else (respond 500 FailedToProcessReminders, w2))"





section \<open>Notions used in the statements\<close>

definition decimal_value :: "jsstring \<Rightarrow> nat" where
  \<comment> \<open>The number a string of decimal digits denotes, digit by digit.\<close>
  "decimal_value ds = (\<Sum>i<length ds. (ds ! i - 48) * 10 ^ (length ds - Suc i))"

definition whole :: "jsnum \<Rightarrow> bool" where
  \<comment> \<open>A whole number or an infinity: what rounding a whole number can give.\<close>
  "whole y = (is_integer y \<or> y = PosInf \<or> y = NegInf)"

definition sweep_calls :: "env \<Rightarrow> reminder \<Rightarrow> call list" where
  \<comment> \<open>The calls of one iteration of the sweep loop in which both succeed.\<close>
  "sweep_calls e r = [SendMail (reviewMail e r), Save (r\<lparr>sent := True\<rparr>)]"

definition mark_all :: "reminder list \<Rightarrow> reminder list \<Rightarrow> reminder list" where
  \<comment> \<open>The store after the updates of the records \<open>rs\<close>, one after the other.\<close>
  "mark_all rs docs = fold (\<lambda>r. mark_sent (rid r)) rs docs"

text \<open>
  A store of four records, an environment and a request body, for the instances of the
  theorems. \<open>all_ok\<close> lets every call succeed, \<open>fails_at i\<close> every call but the \<open>i\<close>-th.
\<close>

definition example_reminder :: "nat \<Rightarrow> int \<Rightarrow> bool \<Rightarrow> reminder" where
  "example_reminder i t s =
     \<lparr>rid = i, email = js ''a@b.c'', problemUrl = js ''https://leetcode.com/problems/two-sum'',
      problemTitle = Some (js ''Two Sum''), scheduledFor = t, sent = s, createdAt = 0\<rparr>"

definition example_world :: world where
  "example_world =
     \<lparr>store = [example_reminder 1 1000 False, example_reminder 2 2000 True,
               example_reminder 3 3000 False, example_reminder 4 1700000000005 False],
      outbox = [], calls = []\<rparr>"

definition all_ok :: "nat \<Rightarrow> bool" where
  "all_ok k = True"

definition fails_at :: "nat \<Rightarrow> nat \<Rightarrow> bool" where
  "fails_at i k = (k \<noteq> i)"

definition example_env :: "(nat \<Rightarrow> bool) \<Rightarrow> (nat \<Rightarrow> bool) \<Rightarrow> env" where
  "example_env mo so =
     \<lparr>process_env = (\<lambda>name. Some (js ''hunter2'')), now = 1700000000000,
      date_now = 1700000000001, toLocaleString = (\<lambda>d. js ''11/14/23, 10:13 PM''),
      mail_ok = mo, save_ok = so, find_ok = True\<rparr>"

definition example_request :: "jsval \<Rightarrow> request" where
  "example_request minutes =
     \<lparr>req_email = Some (js ''a@b.c''),
      req_problemUrl = Some (js ''https://leetcode.com/problems/two-sum''),
      req_problemTitle = None, req_reminderMinutes = minutes\<rparr>"

definition empty_world :: world where
  "empty_world = \<lparr>store = [], outbox = [], calls = []\<rparr>"



section \<open>Rounding to binary64\<close>

lemma round_half_even_of_int: "round_half_even (of_int z) = z"
  by (simp add: round_half_even_def)

lemma bitlen_one: "bitlen 1 = 1"
  by (simp add: bitlen_alt_def)

lemma ilog2_of_int: "0 < a \<Longrightarrow> ilog2 (of_int a) = bitlen a - 1"
proof -
  assume a: "0 < a"
  have b: "2 ^ nat (bitlen a - 1) \<le> a" using bitlen_bounds [OF a] by simp
  have nn: "0 \<le> bitlen a - 1" using a by (simp add: bitlen_alt_def)
  have "(2::rat) powi (bitlen a - 1) = of_int (2 ^ nat (bitlen a - 1))"
    using nn by (simp add: power_int_nonneg_exp)
  also have "\<dots> \<le> of_int a" using b by (simp only: of_int_le_iff)
  finally show ?thesis by (simp add: ilog2_def bitlen_one)
qed

lemma powi_nonpos: "e \<le> 0 \<Longrightarrow> (2::rat) powi e = 1 / 2 ^ nat (- e)"
  by (simp add: power_int_def power_divide)

lemma round_double_whole:
  "(\<exists>j. round_double (of_int k) = Fin (of_int j)) \<or> round_double (of_int k) = PosInf \<or> round_double (of_int k) = NegInf"
proof (cases "k = 0")
  case True then show ?thesis by (simp add: round_double_def)
next
  case False
  define a :: rat where "a = \<bar>of_int k\<bar>"
  define e where "e = max (ilog2 a - 52) (- 1074)"
  have ak: "a = of_int \<bar>k\<bar>" by (simp add: a_def)
  have "\<exists>j. of_int (round_half_even (a / 2 powi e)) * (2::rat) powi e = of_int j"
  proof (cases "e \<le> 0")
    case True
    have q: "a / 2 powi e = of_int (\<bar>k\<bar> * 2 ^ nat (- e))"
      by (simp add: powi_nonpos [OF True] ak)
    have "of_int (round_half_even (a / 2 powi e)) * (2::rat) powi e = of_int \<bar>k\<bar>"
      unfolding q round_half_even_of_int by (simp add: powi_nonpos [OF True])
    then show ?thesis by blast
  next
    case False
    then have "(2::rat) powi e = of_int (2 ^ nat e)" by (simp add: power_int_nonneg_exp)
    then have "of_int (round_half_even (a / 2 powi e)) * (2::rat) powi e
        = of_int (round_half_even (a / 2 powi e) * 2 ^ nat e)" by simp
    then show ?thesis by blast
  qed
  then obtain j where j: "of_int (round_half_even (a / 2 powi e)) * (2::rat) powi e = of_int j" ..
  have s: "sgn (of_int k :: rat) * of_int j = of_int (sgn k * j)" by (simp add: sgn_if)
  have nz: "(of_int k :: rat) \<noteq> 0" using False by simp
  have "round_double (of_int k) =
      (if 2 ^ 1024 \<le> (of_int j :: rat) then (if (0::rat) < of_int k then PosInf else NegInf)
       else Fin (of_int (sgn k * j)))"
    unfolding round_double_def Let_def a_def [symmetric] e_def [symmetric] j s
    by (simp only: nz if_False)
  then show ?thesis by (metis (full_types))
qed

lemma round_double_zero: "round_double 0 = Fin 0"
  by (simp add: round_double_def)


lemma round_half_even_div:
  assumes m: "0 < m"
  shows "round_half_even (of_int a / of_int m) =
    (let q = a div m; r = a mod m
     in if 2 * r < m then q else if m < 2 * r then q + 1 else if even q then q else q + 1)"
proof -
  have fl: "\<lfloor>(of_int a :: rat) / of_int m\<rfloor> = a div m" by (rule floor_divide_of_int_eq)
  have "(of_int a :: rat) = of_int (m * (a div m) + a mod m)" by simp
  also have "\<dots> = of_int m * of_int (a div m) + of_int (a mod m)" by (simp only: of_int_add of_int_mult)
  finally have "(of_int a :: rat) / of_int m = of_int (a div m) + of_int (a mod m) / of_int m"
    using m by (simp add: field_simps)
  then have d: "(of_int a :: rat) / of_int m - of_int (a div m) = of_int (a mod m) / of_int m"
    by simp
  have lt: "(of_int (a mod m) / of_int m :: rat) < 1 / 2 \<longleftrightarrow> 2 * (a mod m) < m"
  proof -
    have "(of_int (a mod m) / of_int m :: rat) < 1 / 2 \<longleftrightarrow> (of_int (2 * (a mod m)) :: rat) < of_int m"
      using m by (simp add: field_simps)
    then show ?thesis by (simp only: of_int_less_iff)
  qed
  have gt: "(1 / 2 :: rat) < of_int (a mod m) / of_int m \<longleftrightarrow> m < 2 * (a mod m)"
  proof -
    have "(1 / 2 :: rat) < of_int (a mod m) / of_int m \<longleftrightarrow> (of_int m :: rat) < of_int (2 * (a mod m))"
      using m by (simp add: field_simps)
    then show ?thesis by (simp only: of_int_less_iff)
  qed
  show ?thesis
    unfolding round_half_even_def Let_def fl d lt gt ..
qed

lemma round_double_eval:
  assumes a: "0 < a" and b: "bitlen a = 53 + int s"
  shows "round_double (of_int a) =
    (let m = 2 ^ s; q = a div m; r = a mod m;
         q' = (if 2 * r < m then q else if m < 2 * r then q + 1 else if even q then q else q + 1)
     in if 2 ^ 1024 \<le> q' * m then (PosInf :: jsnum) else Fin (of_int (q' * m)))"
proof -
  have e: "max (ilog2 (of_int a) - 52) (- 1074) = int s"
    using a b by (simp add: ilog2_of_int)
  have p: "(2::rat) powi int s = of_int (2 ^ s)" by simp
  have le: "(2 ^ 1024 \<le> (of_int (q * 2 ^ s) :: rat)) = (2 ^ 1024 \<le> q * 2 ^ s)" for q :: int
  proof -
    have "((of_int (2 ^ 1024) :: rat) \<le> of_int (q * 2 ^ s)) = (2 ^ 1024 \<le> q * 2 ^ s)"
      by (simp only: of_int_le_iff)
    then show ?thesis by simp
  qed
  have nz: "(of_int a :: rat) \<noteq> 0" "(0::rat) < of_int a" "\<bar>of_int a :: rat\<bar> = of_int a"
    "sgn (of_int a :: rat) = 1"
    using a by simp_all
  have "round_double (of_int a) =
     (let r = of_int (round_half_even (of_int a / of_int (2 ^ s))) * (of_int (2 ^ s) :: rat)
      in if 2 ^ 1024 \<le> r then PosInf else Fin r)"
    unfolding round_double_def Let_def nz e p by (simp only: nz if_False if_True mult_1)
  also have "\<dots> = (let m = 2 ^ s; q = a div m; r = a mod m;
         q' = (if 2 * r < m then q else if m < 2 * r then q + 1 else if even q then q else q + 1)
     in if 2 ^ 1024 \<le> q' * m then (PosInf :: jsnum) else Fin (of_int (q' * m)))"
    unfolding Let_def round_half_even_div [of "2 ^ s" a, simplified Let_def, OF zero_less_power [of "2::int" s, OF zero_less_numeral]]
      of_int_mult [symmetric] le ..
  finally show ?thesis .
qed

lemma round_double_times_24: "round_double 216172782113783760 = Fin 216172782113783744"
  using round_double_eval [of 216172782113783760 5]
  by (simp add: compute_bitlen)

lemma round_double_times_60: "round_double 12970366926827024640 = Fin 12970366926827024384"
  using round_double_eval [of 12970366926827024640 11]
  by (simp add: compute_bitlen)

lemma round_double_times_1440: "round_double 12970366926827025600 = Fin 12970366926827026432"
  using round_double_eval [of 12970366926827025600 11]
  by (simp add: compute_bitlen)

lemma powi_less_imp_less: "(2::rat) powi m < 2 powi n \<Longrightarrow> m < n"
proof (rule ccontr)
  assume a: "(2::rat) powi m < 2 powi n" and "\<not> m < n"
  then have "n \<le> m" by simp
  then have "(2::rat) powi n \<le> 2 powi m" by (rule power_int_increasing) simp
  with a show False by simp
qed

lemma ilog2_lower:
  assumes "0 < a"
  shows "2 powi (ilog2 a) \<le> a"
proof -
  obtain p q where pq: "quotient_of a = (p, q)" by (cases "quotient_of a")
  have q: "0 < q" using pq by (rule quotient_of_denom_pos)
  have a: "a = of_int p / of_int q" using pq by (rule quotient_of_div)
  have p: "0 < p" using assms q unfolding a by (simp add: zero_less_divide_iff)
  define d where "d = bitlen p - bitlen q"
  have il: "ilog2 a = (if (2::rat) powi d \<le> a then d else d - 1)"
    by (simp add: ilog2_def pq d_def Let_def)
  show ?thesis
  proof (cases "(2::rat) powi d \<le> a")
    case True then show ?thesis by (simp add: il)
  next
    case False
    have bp: "1 \<le> bitlen p" "1 \<le> bitlen q" using p q by (simp_all add: bitlen_alt_def)
    define M where "M = nat (bitlen p - 1)"
    define N where "N = nat (bitlen q)"
    have lp: "(2::rat) ^ M \<le> of_int p"
    proof -
      have "(2::int) ^ M \<le> p" using bitlen_bounds [OF p] by (simp add: M_def)
      then have "(of_int ((2::int) ^ M) :: rat) \<le> of_int p" by (simp only: of_int_le_iff)
      then show ?thesis by simp
    qed
    have uq: "(of_int q :: rat) \<le> 2 ^ N"
    proof -
      have "q \<le> 2 ^ N" using bitlen_bounds [OF q] by (simp add: N_def)
      then have "(of_int q :: rat) \<le> of_int ((2::int) ^ N)" by (simp only: of_int_le_iff)
      then show ?thesis by simp
    qed
    have "d - 1 = int M - int N" using bp by (simp add: d_def M_def N_def)
    then have "(2::rat) powi (d - 1) = 2 ^ M / 2 ^ N"
      by (simp add: power_int_diff)
    also have "\<dots> \<le> of_int p / 2 ^ N"
      using lp by (simp add: divide_right_mono)
    also have "\<dots> \<le> of_int p / of_int q"
      using uq p q by (simp add: frac_le)
    finally have "(2::rat) powi (d - 1) \<le> of_int p / of_int q" .
    then have "(2::rat) powi (d - 1) \<le> a" by (simp only: a [symmetric])
    with False show ?thesis by (simp only: il if_False)
  qed
qed

lemma round_double_dyadic:
  assumes k: "\<bar>k\<bar> < 2 ^ 53" and j: "j \<le> 1074"
  shows "round_double (of_int k / 2 ^ j) = Fin (of_int k / 2 ^ j)"
proof (cases "k = 0")
  case True then show ?thesis by (simp add: round_double_def)
next
  case False
  define a :: rat where "a = \<bar>of_int k / 2 ^ j\<bar>"
  define e where "e = max (ilog2 a - 52) (- 1074)"
  have ak: "a = of_int \<bar>k\<bar> / 2 ^ j" by (simp add: a_def)
  have apos: "0 < a" using False by (simp add: ak)
  have "a < 2 ^ 53 / 2 ^ j"
  proof -
    have "(of_int \<bar>k\<bar> :: rat) < of_int (2 ^ 53)" using k by (simp only: of_int_less_iff)
    then show ?thesis by (simp add: ak divide_strict_right_mono)
  qed
  also have "\<dots> = (2::rat) powi (53 - int j)" by (simp add: power_int_diff)
  finally have "(2::rat) powi (ilog2 a) < 2 powi (53 - int j)"
    using ilog2_lower [OF apos] by simp
  then have "ilog2 a < 53 - int j" by (rule powi_less_imp_less)
  then have e: "e \<le> - int j" using j by (simp add: e_def)
  define n where "n = nat (- int j - e)"
  have pe: "(2::rat) powi e = 1 / (2 ^ j * 2 ^ n)"
  proof -
    have "e = - int (j + n)" using e by (simp add: n_def)
    then have "(2::rat) powi e = 2 powi (- int (j + n))" by (simp only:)
    also have "\<dots> = 1 / 2 ^ (j + n)" by (simp only: power_int_minus_divide power_int_of_nat)
    also have "\<dots> = 1 / (2 ^ j * 2 ^ n)" by (simp only: power_add)
    finally show ?thesis .
  qed
  have q: "a / 2 powi e = of_int (\<bar>k\<bar> * 2 ^ n)" by (simp add: pe ak)
  have r: "of_int (round_half_even (a / 2 powi e)) * (2::rat) powi e = a"
    unfolding q round_half_even_of_int by (simp add: pe ak)
  have lt: "a < 2 ^ 1024"
  proof -
    have "a \<le> of_int \<bar>k\<bar>"
    proof -
      have "(1::rat) \<le> 2 ^ j" by simp
      then have "(of_int \<bar>k\<bar> :: rat) / 2 ^ j \<le> of_int \<bar>k\<bar> / 1"
        by (intro divide_left_mono) simp_all
      then show ?thesis by (simp add: ak)
    qed
    also have "\<dots> < of_int (2 ^ 53)" using k by (simp only: of_int_less_iff)
    also have "\<dots> < (2::rat) ^ 1024" by simp
    finally show ?thesis .
  qed
  have nz: "(of_int k / 2 ^ j :: rat) \<noteq> 0" using False by simp
  have sg: "sgn (of_int k / 2 ^ j :: rat) * a = of_int k / 2 ^ j"
    by (simp add: a_def sgn_if abs_if)
  show ?thesis
    unfolding round_double_def Let_def a_def [symmetric] e_def [symmetric] r
    using nz lt sg by simp
qed

lemma round_double_safe:
  assumes "\<bar>k\<bar> < 2 ^ 53"
  shows "round_double (of_int k) = Fin (of_int k)"
  using round_double_dyadic [OF assms, of 0] by simp

lemma round_double_one: "round_double 1 = Fin 1"
  using round_double_safe [of 1] by simp

lemma round_double_scaled:
  assumes k: "\<bar>k\<bar> < 2 ^ 53" and j: "j \<le> 970"
  shows "round_double (of_int (k * 2 ^ j)) = Fin (of_int (k * 2 ^ j))"
proof (cases "k = 0")
  case True then show ?thesis by (simp add: round_double_def)
next
  case False
  define a :: rat where "a = \<bar>of_int (k * 2 ^ j)\<bar>"
  define e where "e = max (ilog2 a - 52) (- 1074)"
  have ak: "a = of_int \<bar>k\<bar> * 2 ^ j" by (simp add: a_def abs_mult)
  have apos: "0 < a" using False by (simp add: ak)
  have "a < 2 ^ 53 * 2 ^ j"
  proof -
    have "(of_int \<bar>k\<bar> :: rat) < of_int (2 ^ 53)" using k by (simp only: of_int_less_iff)
    then show ?thesis by (simp add: ak)
  qed
  also have "\<dots> = (2::rat) powi (53 + int j)" by (simp add: power_int_add)
  finally have "(2::rat) powi (ilog2 a) < 2 powi (53 + int j)"
    using ilog2_lower [OF apos] by simp
  then have "ilog2 a < 53 + int j" by (rule powi_less_imp_less)
  then have e: "e \<le> int j" by (simp add: e_def)
  define n where "n = nat (int j - e)"
  have pe: "(2::rat) powi e = 2 ^ j / 2 ^ n"
  proof -
    have "e = int j - int n" using e by (simp add: n_def)
    then have "(2::rat) powi e = 2 powi (int j - int n)" by (simp only:)
    also have "\<dots> = 2 ^ j / 2 ^ n" by (simp add: power_int_diff)
    finally show ?thesis .
  qed
  have q: "a / 2 powi e = of_int (\<bar>k\<bar> * 2 ^ n)" by (simp add: pe ak)
  have r: "of_int (round_half_even (a / 2 powi e)) * (2::rat) powi e = a"
    unfolding q round_half_even_of_int by (simp add: pe ak)
  have lt: "a < 2 ^ 1024"
  proof -
    have "(2::rat) ^ j \<le> 2 ^ 970" using j by (intro power_increasing) simp_all
    then have "a \<le> of_int \<bar>k\<bar> * 2 ^ 970" by (simp add: ak mult_left_mono)
    also have "\<dots> < of_int (2 ^ 53) * (2::rat) ^ 970"
    proof -
      have "(of_int \<bar>k\<bar> :: rat) < of_int (2 ^ 53)" using k by (simp only: of_int_less_iff)
      then show ?thesis by (intro mult_strict_right_mono) simp_all
    qed
    also have "\<dots> < (2::rat) ^ 1024" by simp
    finally show ?thesis .
  qed
  have nz: "(of_int (k * 2 ^ j) :: rat) \<noteq> 0" using False by simp
  have sg: "sgn (of_int (k * 2 ^ j) :: rat) * a = of_int (k * 2 ^ j)"
    by (simp add: a_def sgn_if abs_if)
  show ?thesis
    unfolding round_double_def Let_def a_def [symmetric] e_def [symmetric] r
    using nz lt sg by simp
qed

lemma round_double_lower:
  assumes z: "2 ^ m \<le> z"
  shows "round_double (of_int z) = PosInf
    \<or> (\<exists>j. round_double (of_int z) = Fin (of_int j) \<and> 2 ^ m \<le> j)"
proof (cases "z < 2 ^ 53")
  case True
  have "(0::int) < 2 ^ m" by simp
  then have "0 < z" using z by linarith
  then have "round_double (of_int z) = Fin (of_int z)"
    using round_double_safe [of z] True by simp
  then show ?thesis using z by blast
next
  case False
  have pos: "0 < z" using False by simp
  have "bitlen z \<ge> 54"
  proof (rule ccontr)
    assume "\<not> 54 \<le> bitlen z"
    then have "nat (bitlen z) \<le> 53" by simp
    then have "(2::int) ^ nat (bitlen z) \<le> 2 ^ 53" by (intro power_increasing) simp_all
    then show False using bitlen_bounds [OF pos] False by linarith
  qed
  then have "bitlen z = 53 + int (nat (bitlen z - 53))" "1 \<le> nat (bitlen z - 53)"
    by simp_all
  then obtain s where s: "bitlen z = 53 + int s" "1 \<le> s" by blast
  define M :: int where "M = 2 ^ s"
  define q where "q = z div M"
  define q' where "q' = (if 2 * (z mod M) < M then q else if M < 2 * (z mod M) then q + 1
      else if even q then q else q + 1)"
  have ev: "round_double (of_int z) = (if 2 ^ 1024 \<le> q' * M then PosInf else Fin (of_int (q' * M)))"
    using round_double_eval [OF pos s(1)] by (simp add: Let_def M_def q_def q'_def)
  have Mpos: "0 < M" by (simp add: M_def)
  have qq: "q \<le> q'" by (simp add: q'_def)
  have low: "2 ^ m \<le> q * M"
  proof (cases "m \<le> 52 + s")
    case True
    have "(2::int) ^ (52 + s) \<le> z"
      using bitlen_bounds [OF pos] s(1) by (simp add: nat_add_distrib)
    then have "(2 ^ 52 * M) div M \<le> z div M"
      by (intro zdiv_mono1) (simp_all add: M_def power_add)
    then have q52: "2 ^ 52 \<le> q" using Mpos by (simp add: q_def)
    have a: "2 ^ 52 * M \<le> q * M" using q52 Mpos by (intro mult_right_mono) simp_all
    have "(2::int) ^ m \<le> 2 ^ (52 + s)" using True by (intro power_increasing) simp_all
    then have b: "(2::int) ^ m \<le> 2 ^ 52 * M" by (simp only: M_def power_add)
    show ?thesis using a b by linarith
  next
    case False
    then have ms: "m = (m - s) + s" by simp
    have "(2 ^ (m - s) * M) div M \<le> z div M"
    proof (intro zdiv_mono1)
      have "(2::int) ^ (m - s) * M = 2 ^ m" unfolding M_def power_add [symmetric] using ms by simp
      then show "2 ^ (m - s) * M \<le> z" using z by simp
      show "0 < M" by (rule Mpos)
    qed
    then have qm: "2 ^ (m - s) \<le> q" using Mpos by (simp add: q_def)
    have a: "2 ^ (m - s) * M \<le> q * M" using qm Mpos by (intro mult_right_mono) simp_all
    have b: "(2::int) ^ (m - s) * M = 2 ^ m" unfolding M_def power_add [symmetric] using ms by simp
    show ?thesis using a b by linarith
  qed
  have "q * M \<le> q' * M" using qq Mpos by simp
  then have big: "2 ^ m \<le> q' * M" using low by simp
  show ?thesis
  proof (cases "(2::int) ^ 1024 \<le> q' * M")
    case True
    then have "round_double (of_int z) = PosInf" by (simp only: ev if_True)
    then show ?thesis by blast
  next
    case False
    then have "round_double (of_int z) = Fin (of_int (q' * M))" by (simp only: ev if_False)
    then show ?thesis using big by blast
  qed
qed


section \<open>Reading digits\<close>

lemma is_digit_10: "is_digit 10 c \<longleftrightarrow> 48 \<le> c \<and> c \<le> 57"
  by (auto simp add: is_digit_def digit_val_def)

lemma digit_not_ws: "is_digit 10 c \<Longrightarrow> \<not> is_ws c"
  by (auto simp add: is_digit_10 is_ws_def)

lemma trim_id: 
  assumes "s \<noteq> []" "\<not> is_ws (hd s)" "\<not> is_ws (last s)"
  shows "trim s = s"
proof -
  from assms obtain x xs where s: "s = x # xs" by (cases s) auto
  with assms have a: "dropWhile is_ws s = s" by simp
  from assms obtain y ys where r: "rev s = y # ys" by (cases "rev s") auto
  have "y = last s" using r assms(1) by (metis hd_rev list.sel(1))
  then have "dropWhile is_ws (y # ys) = y # ys" using assms(3) by simp
  then have "dropWhile is_ws (rev s) = rev s" by (simp only: r)
  then show ?thesis by (simp add: trim_def a)
qed

lemma takeWhile_digits:
  assumes "list_all (is_digit 10) ds" "rest = [] \<or> \<not> is_digit 10 (hd rest)"
  shows "takeWhile (is_digit 10) (ds @ rest) = ds"
proof -
  have "takeWhile (is_digit 10) rest = []" using assms(2) by (cases rest) auto
  then show ?thesis using assms(1) by (simp add: takeWhile_append2 list_all_iff)
qed

lemma parseInt_digits:
  assumes ne: "ds \<noteq> []" and dg: "list_all (is_digit 10) ds"
    and rest: "rest = [] \<or> \<not> is_digit 10 (hd rest)"
    and nohex: "take 2 (ds @ rest) \<noteq> [48, 120]" "take 2 (ds @ rest) \<noteq> [48, 88]"
  shows "parseInt (ds @ rest) = round_double (of_int (int (digits_value 10 ds)))"
proof -
  from ne obtain d ds' where ds: "ds = d # ds'" by (cases ds) auto
  have d: "is_digit 10 d" using dg ds by simp
  have ws: "\<not> is_ws d" using d by (rule digit_not_ws)
  have sg: "d \<noteq> 43" "d \<noteq> 45" using d by (auto simp add: is_digit_10)
  have S: "dropWhile is_ws (ds @ rest) = d # ds' @ rest" using ws ds by simp
  have Z: "takeWhile (is_digit 10) (d # ds' @ rest) = ds"
    using takeWhile_digits [OF dg rest] ds by simp
  have hex: "(take 2 (d # ds' @ rest) = [48, 120] \<or> take 2 (d # ds' @ rest) = [48, 88]) = False"
    using nohex unfolding ds by simp
  have "parseInt (ds @ rest) = (if ds = [] then NaN else round_double (of_int (1 * int (digits_value 10 ds))))"
    unfolding parseInt_def Let_def S
    by (simp only: list.case sg simp_thms if_False if_True hex Z)
  then show ?thesis using ne by simp
qed

lemma round_double_numeral:
  "numeral k < (2::int) ^ 53 \<Longrightarrow> round_double (numeral k) = Fin (numeral k)"
  using round_double_safe [of "numeral k"] by simp

lemmas eval_defs = parseReminderTime_def js_def trim_def is_ws_def parseInt_def is_digit_def
  digit_val_def digits_value_def endsWith_def isNaN_def round_double_numeral
  round_double_one round_double_zero


lemma digits_value_snoc: "digits_value R (ds @ [d]) = digits_value R ds * R + digit_val d"
  by (simp add: digits_value_def)

lemma decimal_value_snoc: "decimal_value (ds @ [d]) = decimal_value ds * 10 + (d - 48)"
proof -
  have "(\<Sum>i<length ds. ((ds @ [d]) ! i - 48) * 10 ^ (length (ds @ [d]) - Suc i))
      = (\<Sum>i<length ds. ((ds ! i - 48) * 10 ^ (length ds - Suc i)) * 10)"
  proof (rule sum.cong)
    fix i assume "i \<in> {..<length ds}"
    then have i: "i < length ds" by simp
    then have "length (ds @ [d]) - Suc i = Suc (length ds - Suc i)" by simp
    then show "((ds @ [d]) ! i - 48) * 10 ^ (length (ds @ [d]) - Suc i)
        = ((ds ! i - 48) * 10 ^ (length ds - Suc i)) * 10"
      using i by (simp add: nth_append)
  qed simp
  then show ?thesis
    by (simp add: decimal_value_def sum_distrib_right)
qed

lemma digits_value_decimal:
  "list_all (is_digit 10) ds \<Longrightarrow> digits_value 10 ds = decimal_value ds"
proof (induction ds rule: rev_induct)
  case Nil
  show ?case by (simp add: digits_value_def decimal_value_def)
next
  case (snoc d ds)
  then have "digit_val d = d - 48" by (simp add: is_digit_10 digit_val_def)
  with snoc show ?case by (simp add: digits_value_snoc decimal_value_snoc)
qed

lemma round_double_not_NaN: "round_double x \<noteq> NaN"
  by (simp add: round_double_def Let_def)

lemma endsWith_snoc: "endsWith (ds @ [c]) [c'] \<longleftrightarrow> c = c'"
  by (simp add: endsWith_def)

lemma parse_text_unit:
  assumes ne: "ds \<noteq> []" and dg: "list_all (is_digit 10) ds"
    and c: "c \<in> {109, 104, 100}"
  shows "parseReminderTime (JStr (ds @ [c])) =
     (let v = round_double (of_int (int (digits_value 10 ds)))
      in Inr (Some (if c = 109 then v else if c = 104 then js_mul v (Fin 60)
                    else js_mul (js_mul v (Fin 24)) (Fin 60))))"
proof -
  from ne obtain d ds' where ds: "ds = d # ds'" by (cases ds) auto
  have d: "is_digit 10 d" using dg ds by simp
  have cd: "\<not> is_digit 10 c" "\<not> is_ws c" "c \<noteq> 120" "c \<noteq> 88"
    using c by (auto simp add: is_digit_10 is_ws_def)
  have t: "trim (ds @ [c]) = ds @ [c]"
    using cd(2) digit_not_ws [OF d] by (intro trim_id) (simp_all add: ds)
  have nohex: "take 2 (ds @ [c]) \<noteq> [48, 120]" "take 2 (ds @ [c]) \<noteq> [48, 88]"
  proof -
    show "take 2 (ds @ [c]) \<noteq> [48, 120]"
    proof (cases ds')
      case Nil then show ?thesis using cd ds by simp
    next
      case (Cons d2 ds2)
      then have "is_digit 10 d2" using dg ds by simp
      then have "d2 \<noteq> 120" by (auto simp add: is_digit_10)
      then show ?thesis using ds Cons by simp
    qed
    show "take 2 (ds @ [c]) \<noteq> [48, 88]"
    proof (cases ds')
      case Nil then show ?thesis using cd ds by simp
    next
      case (Cons d2 ds2)
      then have "is_digit 10 d2" using dg ds by simp
      then have "d2 \<noteq> 88" by (auto simp add: is_digit_10)
      then show ?thesis using ds Cons by simp
    qed
  qed
  have p: "parseInt (ds @ [c]) = round_double (of_int (int (digits_value 10 ds)))"
    using parseInt_digits [OF ne dg _ nohex] cd(1) by simp
  have m: "js ''m'' = [109]" "js ''h'' = [104]" "js ''d'' = [100]" by (simp_all add: js_def)
  have "parseReminderTime (JStr (ds @ [c])) =
     (let v = round_double (of_int (int (digits_value 10 ds)))
      in if c = 109 then Inr (Some v)
         else if c = 104 then Inr (Some (js_mul v (Fin 60)))
         else if c = 100 then Inr (Some (js_mul (js_mul v (Fin 24)) (Fin 60)))
         else Inr (Some v))"
    unfolding parseReminderTime_def
    by (simp only: jsval.case to_string.simps sum.case t p Let_def isNaN_def
        round_double_not_NaN if_False m endsWith_snoc)
  then show ?thesis using c by (auto simp add: Let_def)
qed

lemma js_units: "js ''m'' = [109]" "js ''h'' = [104]" "js ''d'' = [100]"
  by (simp_all add: js_def)


section \<open>The duration parser: results\<close>

text \<open>
  C1 (as amended). The parser returns the stated results on the test vectors:
  the number 30 gives 30, \<open>"30m"\<close> 30, \<open>"2h"\<close> 120, \<open>"1d"\<close> 1440, \<open>"45"\<close> 45, \<open>"5x"\<close> 5,
  \<open>"abc"\<close> fails with \<open>null\<close>, and \<open>"  10m  "\<close> gives 10. For every non-empty string
  of decimal digits denoting \<open>n\<close>: followed by \<open>m\<close> it parses to \<open>n\<close> when \<open>n < 2 ^ 53\<close>,
  followed by \<open>h\<close> to \<open>60 * n\<close> when \<open>60 * n < 2 ^ 53\<close>, and followed by \<open>d\<close> to
  \<open>1440 * n\<close> when \<open>1440 * n < 2 ^ 53\<close>. Beyond these bounds the Number arithmetic of
  the program rounds.
\<close>

theorem parser_vectors_and_units:
  "parseReminderTime (JNum (Fin 30)) = Inr (Some (Fin 30))
   \<and> parseReminderTime (JStr (js ''30m'')) = Inr (Some (Fin 30))
   \<and> parseReminderTime (JStr (js ''2h'')) = Inr (Some (Fin 120))
   \<and> parseReminderTime (JStr (js ''1d'')) = Inr (Some (Fin 1440))
   \<and> parseReminderTime (JStr (js ''45'')) = Inr (Some (Fin 45))
   \<and> parseReminderTime (JStr (js ''5x'')) = Inr (Some (Fin 5))
   \<and> parseReminderTime (JStr (js ''abc'')) = Inr None
   \<and> parseReminderTime (JStr (js ''  10m  '')) = Inr (Some (Fin 10))
   \<and> (ds \<noteq> [] \<and> list_all (is_digit 10) ds \<longrightarrow>
        (decimal_value ds < 2 ^ 53 \<longrightarrow>
           parseReminderTime (JStr (ds @ js ''m'')) = Inr (Some (Fin (of_nat (decimal_value ds)))))
      \<and> (60 * decimal_value ds < 2 ^ 53 \<longrightarrow>
           parseReminderTime (JStr (ds @ js ''h'')) = Inr (Some (Fin (of_nat (60 * decimal_value ds)))))
      \<and> (1440 * decimal_value ds < 2 ^ 53 \<longrightarrow>
           parseReminderTime (JStr (ds @ js ''d'')) = Inr (Some (Fin (of_nat (1440 * decimal_value ds))))))"
proof -
  have v1: "parseReminderTime (JNum (Fin 30)) = Inr (Some (Fin 30))"
    by (simp add: parseReminderTime_def)
  have v2: "parseReminderTime (JStr (js ''30m'')) = Inr (Some (Fin 30))"
    by (simp add: eval_defs)
  have v3: "parseReminderTime (JStr (js ''2h'')) = Inr (Some (Fin 120))"
    by (simp add: eval_defs)
  have v4: "parseReminderTime (JStr (js ''1d'')) = Inr (Some (Fin 1440))"
    by (simp add: eval_defs)
  have v5: "parseReminderTime (JStr (js ''45'')) = Inr (Some (Fin 45))"
    by (simp add: eval_defs)
  have v6: "parseReminderTime (JStr (js ''5x'')) = Inr (Some (Fin 5))"
    by (simp add: eval_defs)
  have v7: "parseReminderTime (JStr (js ''abc'')) = Inr None"
    by (simp add: eval_defs)
  have v8: "parseReminderTime (JStr (js ''  10m  '')) = Inr (Some (Fin 10))"
    by (simp add: eval_defs)
  have u: "(decimal_value ds < 2 ^ 53 \<longrightarrow>
           parseReminderTime (JStr (ds @ js ''m'')) = Inr (Some (Fin (of_nat (decimal_value ds)))))
      \<and> (60 * decimal_value ds < 2 ^ 53 \<longrightarrow>
           parseReminderTime (JStr (ds @ js ''h'')) = Inr (Some (Fin (of_nat (60 * decimal_value ds)))))
      \<and> (1440 * decimal_value ds < 2 ^ 53 \<longrightarrow>
           parseReminderTime (JStr (ds @ js ''d'')) = Inr (Some (Fin (of_nat (1440 * decimal_value ds)))))"
    if ne: "ds \<noteq> []" and dg: "list_all (is_digit 10) ds"
  proof -
    define n where "n = decimal_value ds"
    have dv: "digits_value 10 ds = n" using digits_value_decimal [OF dg] by (simp add: n_def)
    have safe: "round_double (of_int (int k)) = Fin (of_nat k)" if "k < 2 ^ 53" for k :: nat
    proof -
      have "int k < 2 ^ 53" using that by (simp add: of_nat_less_numeral_power_cancel_iff)
      then show ?thesis using round_double_safe [of "int k"] by simp
    qed
    have mul: "js_mul (Fin (of_nat a)) (Fin (of_nat b)) = Fin (of_nat (a * b))"
      if "a * b < 2 ^ 53" for a b :: nat
      using safe [OF that] by simp
    have m: "parseReminderTime (JStr (ds @ js ''m'')) = Inr (Some (Fin (of_nat n)))" if "n < 2 ^ 53"
      using parse_text_unit [OF ne dg, of 109] safe [OF that] by (simp add: js_units dv Let_def)
    have h: "parseReminderTime (JStr (ds @ js ''h'')) = Inr (Some (Fin (of_nat (60 * n))))"
      if "60 * n < 2 ^ 53"
    proof -
      have "n < 2 ^ 53" using that by simp
      then show ?thesis
        using parse_text_unit [OF ne dg, of 104] safe [of n] mul [of n 60] that
        by (simp add: js_units dv Let_def mult.commute)
    qed
    have d: "parseReminderTime (JStr (ds @ js ''d'')) = Inr (Some (Fin (of_nat (1440 * n))))"
      if "1440 * n < 2 ^ 53"
    proof -
      have "n < 2 ^ 53" and "n * 24 < 2 ^ 53" and "(n * 24) * 60 < 2 ^ 53" using that by simp_all
      then show ?thesis
        using parse_text_unit [OF ne dg, of 100] safe [of n] mul [of n 24] mul [of "n * 24" 60]
        by (simp add: js_units dv Let_def mult.commute)
    qed
    show ?thesis using m h d by (simp add: n_def)
  qed
  show ?thesis using v1 v2 v3 v4 v5 v6 v7 v8 u by blast
qed

text \<open>Instances: \<open>"12m"\<close> parses to 12, \<open>"12h"\<close> to 720 and \<open>"12d"\<close> to 17280.\<close>

theorem parser_vectors_and_units_witness:
  "list_all (is_digit 10) (js ''12'')
   \<and> 1440 * decimal_value (js ''12'') < 2 ^ 53
   \<and> parseReminderTime (JStr (js ''12'' @ js ''m'')) = Inr (Some (Fin 12))
   \<and> parseReminderTime (JStr (js ''12'' @ js ''h'')) = Inr (Some (Fin 720))
   \<and> parseReminderTime (JStr (js ''12'' @ js ''d'')) = Inr (Some (Fin 17280))"
proof -
  have a: "js ''12'' \<noteq> []" "list_all (is_digit 10) (js ''12'')"
    by (simp_all add: js_def is_digit_10)
  have b: "decimal_value (js ''12'') = 12"
    using digits_value_decimal [OF a(2)] by (simp add: js_def digits_value_def digit_val_def)
  show ?thesis
    using parser_vectors_and_units [of "js ''12''"] a b by simp
qed

text \<open>
  Without the bound the claim fails: \<open>"9007199254740990d"\<close> parses to
  12970366926827024384, which is neither \<open>1440 * 9007199254740990\<close> nor the Number
  product \<open>1440 * 9007199254740990\<close>, since the program multiplies by 24 and then by 60
  and each product is rounded.
\<close>

theorem parser_days_counterexample:
  "decimal_value (js ''9007199254740990'') = 9007199254740990
   \<and> parseReminderTime (JStr (js ''9007199254740990'' @ js ''d'')) = Inr (Some (Fin 12970366926827024384))
   \<and> (12970366926827024384 :: rat) \<noteq> 1440 * 9007199254740990
   \<and> js_mul (Fin 1440) (Fin 9007199254740990) = Fin 12970366926827026432"
proof -
  have a: "list_all (is_digit 10) (js ''9007199254740990'')"
    by (simp add: js_def is_digit_10)
  have b: "decimal_value (js ''9007199254740990'') = 9007199254740990"
    using digits_value_decimal [OF a] by (simp add: js_def digits_value_def digit_val_def)
  have c: "parseReminderTime (JStr (js ''9007199254740990'' @ js ''d'')) = Inr (Some (Fin 12970366926827024384))"
    by (simp add: eval_defs round_double_times_24 round_double_times_60)
  have d: "js_mul (Fin 1440) (Fin 9007199254740990) = Fin 12970366926827026432"
    by (simp add: round_double_times_1440)
  show ?thesis using b c d by simp
qed

lemma whole_round_double: "whole (round_double (of_int k))"
proof -
  have "is_integer (Fin (of_int j))" for j by (simp add: is_integer_def)
  then show ?thesis using round_double_whole [of k] by (auto simp add: whole_def)
qed

lemma whole_js_mul:
  assumes "whole y" "c \<noteq> 0"
  shows "whole (js_mul y (Fin (of_int c)))"
proof (cases y)
  case (Fin r)
  then have "r = of_int \<lfloor>r\<rfloor>" using assms(1) by (simp add: whole_def is_integer_def)
  then obtain j :: int where j: "r = of_int j" ..
  have "js_mul y (Fin (of_int c)) = round_double (of_int (j * c))"
    by (simp add: Fin j)
  then show ?thesis using whole_round_double [of "j * c"] by (simp only:)
next
  case PosInf then show ?thesis using assms(2) by (simp add: whole_def)
next
  case NegInf then show ?thesis using assms(2) by (simp add: whole_def)
next
  case NaN then show ?thesis using assms(1) by (simp add: whole_def is_integer_def)
qed

lemma parseInt_cases: "parseInt s = NaN \<or> (\<exists>k. parseInt s = round_double (of_int k))"
  unfolding parseInt_def Let_def by (metis (full_types))

lemma parse_text_whole:
  "case parseReminderTime (JStr s) of Inl e \<Rightarrow> False | Inr None \<Rightarrow> parseInt (trim s) = NaN
     | Inr (Some y) \<Rightarrow> whole y \<and> parseInt (trim s) \<noteq> NaN"
proof (cases "parseInt (trim s) = NaN")
  case True
  then show ?thesis by (simp add: parseReminderTime_def isNaN_def)
next
  case False
  then obtain k where k: "parseInt (trim s) = round_double (of_int k)"
    using parseInt_cases [of "trim s"] by blast
  have w: "whole (parseInt (trim s))" unfolding k by (rule whole_round_double)
  have w60: "whole (js_mul (parseInt (trim s)) (Fin 60))"
    using whole_js_mul [OF w, of 60] by simp
  have w24: "whole (js_mul (parseInt (trim s)) (Fin 24))"
    using whole_js_mul [OF w, of 24] by simp
  have w1440: "whole (js_mul (js_mul (parseInt (trim s)) (Fin 24)) (Fin 60))"
    using whole_js_mul [OF w24, of 60] by simp
  show ?thesis using False w w60 w1440
    by (simp add: parseReminderTime_def isNaN_def Let_def)
qed

lemma parse_via_string:
  assumes "\<forall>x. v \<noteq> JNum x"
  shows "parseReminderTime v =
     (case to_string v of Inl e \<Rightarrow> Inl e | Inr s \<Rightarrow> parseReminderTime (JStr s))"
  using assms by (cases v) (simp_all add: parseReminderTime_def split: sum.splits)

lemma parse_text_finite:
  assumes p: "parseInt (trim s) = Fin (of_int k)" and b: "1440 * \<bar>k\<bar> < 2 ^ 53"
  shows "\<exists>j. parseReminderTime (JStr s) = Inr (Some (Fin (of_int j)))"
proof -
  have k: "\<bar>k * 60\<bar> < 2 ^ 53" "\<bar>k * 24\<bar> < 2 ^ 53" "\<bar>k * 24 * 60\<bar> < 2 ^ 53"
    using b by (simp_all add: abs_mult)
  have m60: "js_mul (Fin (of_int k)) (Fin 60) = Fin (of_int (k * 60))"
    using round_double_safe [OF k(1)] by simp
  have m24: "js_mul (Fin (of_int k)) (Fin 24) = Fin (of_int (k * 24))"
    using round_double_safe [OF k(2)] by simp
  have m1440: "js_mul (Fin (of_int (k * 24))) (Fin 60) = Fin (of_int (k * 24 * 60))"
    using round_double_safe [OF k(3)] by simp
  have "parseReminderTime (JStr s) =
     (if endsWith (trim s) (js ''m'') then Inr (Some (Fin (of_int k)))
      else if endsWith (trim s) (js ''h'') then Inr (Some (Fin (of_int (k * 60))))
      else if endsWith (trim s) (js ''d'') then Inr (Some (Fin (of_int (k * 24 * 60))))
      else Inr (Some (Fin (of_int k))))"
    unfolding parseReminderTime_def
    by (simp only: jsval.case to_string.simps sum.case p Let_def isNaN_def jsnum.distinct
        if_False m60 m24 m1440)
  then show ?thesis
    by (cases "endsWith (trim s) (js ''m'')"; cases "endsWith (trim s) (js ''h'')";
        cases "endsWith (trim s) (js ''d'')"; simp only: if_True if_False; blast)
qed

text \<open>
  C2 (as amended). Every numeric input is returned unchanged, whatever it is: a
  fraction, an infinity and NaN included. For every other input the parser throws
  when the conversion to a string throws, returns \<open>null\<close>, or returns a Number that
  is a whole number or an infinity; the Number is a finite whole number whenever the
  integer \<open>n\<close> that \<open>parseInt\<close> reads has \<open>1440 * \<bar>n\<bar> < 2 ^ 53\<close>. It returns \<open>null\<close>
  exactly when \<open>parseInt\<close> finds no number in the trimmed text, so an unparseable text
  never gives a silent zero.
\<close>

theorem parser_result_kinds:
  "parseReminderTime (JNum x) = Inr (Some x)
   \<and> ((\<forall>y. v \<noteq> JNum y) \<longrightarrow>
        (case parseReminderTime v of
           Inl e \<Rightarrow> to_string v = Inl e
         | Inr None \<Rightarrow> (\<exists>s. to_string v = Inr s \<and> parseInt (trim s) = NaN)
         | Inr (Some y) \<Rightarrow> (is_integer y \<or> y = PosInf \<or> y = NegInf)
             \<and> (\<exists>s. to_string v = Inr s \<and> parseInt (trim s) \<noteq> NaN)))
   \<and> ((\<forall>y. v \<noteq> JNum y) \<and> to_string v = Inr t \<and> parseInt (trim t) = Fin (of_int n)
        \<and> 1440 * \<bar>n\<bar> < 2 ^ 53 \<longrightarrow>
        (\<exists>j. parseReminderTime v = Inr (Some (Fin (of_int j)))))"
proof -
  have a: "parseReminderTime (JNum x) = Inr (Some x)" by (simp add: parseReminderTime_def)
  have c: "\<exists>j. parseReminderTime v = Inr (Some (Fin (of_int j)))"
    if "\<forall>y. v \<noteq> JNum y" "to_string v = Inr t" "parseInt (trim t) = Fin (of_int n)"
      "1440 * \<bar>n\<bar> < 2 ^ 53"
  proof -
    have "parseReminderTime v = parseReminderTime (JStr t)"
      using parse_via_string [OF that(1)] that(2) by simp
    then show ?thesis using parse_text_finite [OF that(3,4)] by simp
  qed
  have b: "case parseReminderTime v of
           Inl e \<Rightarrow> to_string v = Inl e
         | Inr None \<Rightarrow> (\<exists>s. to_string v = Inr s \<and> parseInt (trim s) = NaN)
         | Inr (Some y) \<Rightarrow> (is_integer y \<or> y = PosInf \<or> y = NegInf)
             \<and> (\<exists>s. to_string v = Inr s \<and> parseInt (trim s) \<noteq> NaN)"
    if "\<forall>y. v \<noteq> JNum y"
  proof (cases "to_string v")
    case (Inl e)
    then show ?thesis using parse_via_string [OF that] by simp
  next
    case (Inr s)
    then have "parseReminderTime v = parseReminderTime (JStr s)"
      using parse_via_string [OF that] by simp
    then show ?thesis using parse_text_whole [of s] Inr
      by (auto simp add: whole_def split: sum.splits option.splits)
  qed
  show ?thesis using a b c by blast
qed

text \<open>
  Instances: the number 1.5 is returned as it is, \<open>"abc"\<close> gives \<open>null\<close>, and \<open>"2h"\<close>,
  where \<open>parseInt\<close> reads 2, gives a finite whole number.
\<close>

theorem parser_result_kinds_witness:
  "parseReminderTime (JNum (Fin (3 / 2))) = Inr (Some (Fin (3 / 2)))
   \<and> parseReminderTime (JStr (js ''abc'')) = Inr None
   \<and> (\<exists>s. to_string (JStr (js ''abc'')) = Inr s \<and> parseInt (trim s) = NaN)
   \<and> parseInt (trim (js ''2h'')) = Fin 2
   \<and> (\<exists>j. parseReminderTime (JStr (js ''2h'')) = Inr (Some (Fin (of_int j))))"
proof -
  have n: "parseReminderTime (JStr (js ''abc'')) = Inr None" by (simp add: eval_defs)
  have p: "parseInt (trim (js ''2h'')) = Fin (of_int 2)" by (simp add: eval_defs)
  have f: "\<exists>j. parseReminderTime (JStr (js ''2h'')) = Inr (Some (Fin (of_int j)))"
    using parser_result_kinds [of _ "JStr (js ''2h'')" "js ''2h''" 2] p by simp
  have "parseReminderTime (JNum (Fin (3 / 2))) = Inr (Some (Fin (3 / 2)))
      \<and> (\<exists>s. to_string (JStr (js ''abc'')) = Inr s \<and> parseInt (trim s) = NaN)"
    using n parser_result_kinds [of "Fin (3 / 2)" "JStr (js ''abc'')"] by simp
  then show ?thesis using n p f by simp
qed

text \<open>
  The claim as stated fails on a numeric input with a fractional part: 1.5 is
  returned unchanged, and it is not an integer.
\<close>

theorem parser_fraction_counterexample:
  "parseReminderTime (JNum (Fin (3 / 2))) = Inr (Some (Fin (3 / 2)))
   \<and> \<not> is_integer (Fin (3 / 2))"
proof -
  have "\<lfloor>3 / 2 :: rat\<rfloor> = 1" by (rule floor_unique) simp_all
  then show ?thesis by (simp add: parseReminderTime_def is_integer_def)
qed

lemma js_prefixes: "js ''0x'' = [48, 120]" "js ''0X'' = [48, 88]" "js ''+'' = [43]" "js ''-'' = [45]"
  by (simp_all add: js_def)



lemma parseInt_no_digit:
  assumes "t = [] \<or> (\<not> is_ws (hd t) \<and> \<not> is_digit 10 (hd t) \<and> hd t \<noteq> 43 \<and> hd t \<noteq> 45)"
  shows "parseInt t = NaN"
proof (cases t)
  case Nil
  then show ?thesis by (simp add: parseInt_def)
next
  case (Cons c cs)
  with assms have c: "\<not> is_ws c" "\<not> is_digit 10 c" "c \<noteq> 43" "c \<noteq> 45" by simp_all
  then have "c \<noteq> 48" by (auto simp add: is_digit_10)
  then show ?thesis using c Cons by (simp add: parseInt_def)
qed


lemma parse_text_null: "parseReminderTime (JStr s) = Inr None \<longleftrightarrow> parseInt (trim s) = NaN"
  using parse_text_whole [of s] by (auto split: sum.splits option.splits)




lemma ilog2_numeral: "ilog2 (numeral k) = bitlen (numeral k) - 1"
  using ilog2_of_int [of "numeral k"] by simp

lemma to_string_30: "to_string (JArr [JNum (Fin 30)]) = Inr (js ''30'')"
  by (simp add: number_to_string_def positive_to_string_def ilog10_def ilog2_numeral compute_bitlen
      eval_nat_numeral roundtrips_def round_double_numeral js_def dec.simps Let_def)

lemma trim_hd:
  assumes "trim s \<noteq> []"
  shows "\<not> is_ws (hd (trim s))"
proof -
  define u where "u = dropWhile is_ws s"
  have "rev u = takeWhile is_ws (rev u) @ dropWhile is_ws (rev u)" by simp
  then have "u = rev (dropWhile is_ws (rev u)) @ rev (takeWhile is_ws (rev u))"
    by (metis rev_append rev_rev_ident)
  then have u: "u = trim s @ rev (takeWhile is_ws (rev u))" by (simp add: trim_def u_def)
  then have "u \<noteq> []" using assms by auto
  then have "\<not> is_ws (hd u)" unfolding u_def by (rule hd_dropWhile)
  moreover have "hd u = hd (trim s)" using u assms by (metis hd_append2)
  ultimately show ?thesis by simp
qed

lemma parse_text_digits:
  assumes t: "trim s = ds @ rest" and ne: "ds \<noteq> []" and dg: "list_all (is_digit 10) ds"
    and rest: "rest = [] \<or> \<not> is_digit 10 (hd rest)"
    and nohex: "take 2 (ds @ rest) \<noteq> js ''0x''" "take 2 (ds @ rest) \<noteq> js ''0X''"
  shows "parseReminderTime (JStr s) =
     Inr (Some (let v0 = round_double (of_nat (decimal_value ds))
                in if endsWith (ds @ rest) (js ''m'') then v0
                   else if endsWith (ds @ rest) (js ''h'') then js_mul v0 (Fin 60)
                   else if endsWith (ds @ rest) (js ''d'') then js_mul (js_mul v0 (Fin 24)) (Fin 60)
                   else v0))"
proof -
  have nh: "take 2 (ds @ rest) \<noteq> [48, 120]" "take 2 (ds @ rest) \<noteq> [48, 88]"
    using nohex by (simp_all add: js_prefixes)
  have dv: "int (digits_value 10 ds) = int (decimal_value ds)"
    using digits_value_decimal [OF dg] by simp
  have p: "parseInt (ds @ rest) = round_double (of_int (int (decimal_value ds)))"
    using parseInt_digits [OF ne dg rest nh] by (simp only: dv)
  have "parseReminderTime (JStr s) =
     (if endsWith (ds @ rest) (js ''m'') then Inr (Some (round_double (of_int (int (decimal_value ds)))))
      else if endsWith (ds @ rest) (js ''h'')
        then Inr (Some (js_mul (round_double (of_int (int (decimal_value ds)))) (Fin 60)))
      else if endsWith (ds @ rest) (js ''d'')
        then Inr (Some (js_mul (js_mul (round_double (of_int (int (decimal_value ds)))) (Fin 24)) (Fin 60)))
      else Inr (Some (round_double (of_int (int (decimal_value ds))))))"
    unfolding parseReminderTime_def
    by (simp only: jsval.case to_string.simps sum.case t p Let_def isNaN_def
        round_double_not_NaN if_False)
  then show ?thesis by (simp add: Let_def)
qed

text \<open>
  C10 (as amended). For every input that is neither a number nor a string, the parser
  converts the input to its string form and applies the string path to it, and it
  throws when the conversion throws: a plain object with an own \<open>toString\<close> property
  makes the parser throw a TypeError. The array \<open>[30]\<close> has the string form \<open>"30"\<close> and
  parses to 30; \<open>null\<close>, \<open>undefined\<close>, \<open>true\<close>, \<open>false\<close> and every plain object with no own
  \<open>toString\<close> property give \<open>null\<close>. In general an input whose trimmed string form
  begins with decimal digits, and not with \<open>0x\<close> or \<open>0X\<close>, parses to the minute count
  its leading digits and its last character denote (the Number nearest to the digits'
  value, multiplied by 60 for a last character \<open>h\<close> and by 24 and by 60 for \<open>d\<close>), and
  one whose trimmed string form is empty or begins with neither a digit nor a sign
  gives \<open>null\<close>.
\<close>

theorem other_inputs_via_string:
  "((\<forall>x. v \<noteq> JNum x) \<and> (\<forall>s. v \<noteq> JStr s) \<longrightarrow>
      parseReminderTime v =
        (case to_string v of Inl e \<Rightarrow> Inl e | Inr s \<Rightarrow> parseReminderTime (JStr s)))
   \<and> to_string (JArr [JNum (Fin 30)]) = Inr (js ''30'')
   \<and> parseReminderTime (JArr [JNum (Fin 30)]) = Inr (Some (Fin 30))
   \<and> parseReminderTime JNull = Inr None
   \<and> parseReminderTime JUndefined = Inr None
   \<and> parseReminderTime (JBool True) = Inr None
   \<and> parseReminderTime (JBool False) = Inr None
   \<and> (js ''toString'' \<notin> set (map fst kvs) \<longrightarrow> parseReminderTime (JObj kvs) = Inr None)
   \<and> (js ''toString'' \<in> set (map fst kvs') \<longrightarrow> parseReminderTime (JObj kvs') = Inl TypeError)
   \<and> ((\<forall>x. v \<noteq> JNum x) \<and> to_string v = Inr s \<and> trim s = ds @ rest
        \<and> ds \<noteq> [] \<and> list_all (is_digit 10) ds \<and> (rest = [] \<or> \<not> is_digit 10 (hd rest))
        \<and> take 2 (ds @ rest) \<noteq> js ''0x'' \<and> take 2 (ds @ rest) \<noteq> js ''0X'' \<longrightarrow>
      parseReminderTime v =
        Inr (Some (let v0 = round_double (of_nat (decimal_value ds))
                   in if endsWith (ds @ rest) (js ''m'') then v0
                      else if endsWith (ds @ rest) (js ''h'') then js_mul v0 (Fin 60)
                      else if endsWith (ds @ rest) (js ''d'')
                        then js_mul (js_mul v0 (Fin 24)) (Fin 60)
                      else v0)))
   \<and> ((\<forall>x. v \<noteq> JNum x) \<and> to_string v = Inr s
        \<and> (trim s = [] \<or> (\<not> is_digit 10 (hd (trim s)) \<and> hd (trim s) \<noteq> 43 \<and> hd (trim s) \<noteq> 45)) \<longrightarrow>
      parseReminderTime v = Inr None)"
proof -
  have a: "parseReminderTime v =
        (case to_string v of Inl e \<Rightarrow> Inl e | Inr s \<Rightarrow> parseReminderTime (JStr s))"
    if "\<forall>x. v \<noteq> JNum x"
    using that by (rule parse_via_string)
  have b: "parseReminderTime (JArr [JNum (Fin 30)]) = Inr (Some (Fin 30))"
  proof -
    have "parseReminderTime (JArr [JNum (Fin 30)]) =
        (case to_string (JArr [JNum (Fin 30)]) of Inl e \<Rightarrow> Inl e
         | Inr s \<Rightarrow> parseReminderTime (JStr s))"
      by (rule parse_via_string) simp
    also have "\<dots> = parseReminderTime (JStr (js ''30''))"
      by (simp only: to_string_30 sum.case)
    also have "\<dots> = Inr (Some (Fin 30))" by (simp add: eval_defs)
    finally show ?thesis .
  qed
  have c: "parseReminderTime JNull = Inr None" "parseReminderTime JUndefined = Inr None"
    "parseReminderTime (JBool True) = Inr None" "parseReminderTime (JBool False) = Inr None"
    by (simp_all add: eval_defs)
  have d: "parseReminderTime (JObj kvs) = Inr None" if "js ''toString'' \<notin> set (map fst kvs)"
  proof -
    have "to_string (JObj kvs) = Inr (js ''[object Object]'')" using that by simp
    then have "parseReminderTime (JObj kvs) = parseReminderTime (JStr (js ''[object Object]''))"
      using parse_via_string [of "JObj kvs"] by simp
    also have "\<dots> = Inr None" by (simp add: eval_defs)
    finally show ?thesis .
  qed
  have d': "parseReminderTime (JObj kvs') = Inl TypeError" if "js ''toString'' \<in> set (map fst kvs')"
  proof -
    have "to_string (JObj kvs') = Inl TypeError" using that by simp
    then show ?thesis using parse_via_string [of "JObj kvs'"] by simp
  qed
  have e: "parseReminderTime v =
        Inr (Some (let v0 = round_double (of_nat (decimal_value ds))
                   in if endsWith (ds @ rest) (js ''m'') then v0
                      else if endsWith (ds @ rest) (js ''h'') then js_mul v0 (Fin 60)
                      else if endsWith (ds @ rest) (js ''d'')
                        then js_mul (js_mul v0 (Fin 24)) (Fin 60)
                      else v0))"
    if "\<forall>x. v \<noteq> JNum x" "to_string v = Inr s" "trim s = ds @ rest" "ds \<noteq> []"
      "list_all (is_digit 10) ds" "rest = [] \<or> \<not> is_digit 10 (hd rest)"
      "take 2 (ds @ rest) \<noteq> js ''0x''" "take 2 (ds @ rest) \<noteq> js ''0X''"
  proof -
    have "parseReminderTime v = parseReminderTime (JStr s)"
      using parse_via_string [OF that(1)] that(2) by simp
    then show ?thesis using parse_text_digits [OF that(3-8)] by simp
  qed
  have f: "parseReminderTime v = Inr None"
    if "\<forall>x. v \<noteq> JNum x" "to_string v = Inr s"
      "trim s = [] \<or> (\<not> is_digit 10 (hd (trim s)) \<and> hd (trim s) \<noteq> 43 \<and> hd (trim s) \<noteq> 45)"
  proof -
    have "parseReminderTime v = parseReminderTime (JStr s)"
      using parse_via_string [OF that(1)] that(2) by simp
    moreover have "parseInt (trim s) = NaN"
      using that(3) trim_hd [of s] by (intro parseInt_no_digit) blast
    ultimately show ?thesis by (simp add: parse_text_null)
  qed
  show ?thesis using a to_string_30 b c d d' e f by blast
qed

text \<open>
  Instances: the array \<open>[" 2h", null]\<close> has the string form \<open>" 2h,"\<close> and parses to 2
  (the last character is the comma); the object \<open>{a: null}\<close> and the array \<open>[true]\<close>
  give \<open>null\<close>; the object \<open>{toString: null}\<close> makes the parser throw.
\<close>

theorem other_inputs_via_string_witness:
  "to_string (JArr [JStr (js '' 2h''), JNull]) = Inr (js '' 2h,'')
   \<and> trim (js '' 2h,'') = js ''2'' @ js ''h,''
   \<and> parseReminderTime (JArr [JStr (js '' 2h''), JNull]) = Inr (Some (Fin 2))
   \<and> parseReminderTime (JObj [(js ''a'', JNull)]) = Inr None
   \<and> to_string (JArr [JBool True]) = Inr (js ''true'')
   \<and> parseReminderTime (JArr [JBool True]) = Inr None
   \<and> parseReminderTime (JObj [(js ''toString'', JNull)]) = Inl TypeError"
proof -
  have a: "\<forall>x. JArr [JStr (js '' 2h''), JNull] \<noteq> JNum x" "\<forall>s. JArr [JStr (js '' 2h''), JNull] \<noteq> JStr s"
    "\<forall>x. JArr [JBool True] \<noteq> JNum x"
    by simp_all
  have b: "to_string (JArr [JStr (js '' 2h''), JNull]) = Inr (js '' 2h,'')" by (simp add: js_def)
  have c: "trim (js '' 2h,'') = js ''2'' @ js ''h,''" by (simp add: trim_def js_def is_ws_def)
  have d: "js ''2'' \<noteq> []" "list_all (is_digit 10) (js ''2'')"
    "js ''h,'' = [] \<or> \<not> is_digit 10 (hd (js ''h,''))"
    "take 2 (js ''2'' @ js ''h,'') \<noteq> js ''0x''" "take 2 (js ''2'' @ js ''h,'') \<noteq> js ''0X''"
    by (simp_all add: js_def is_digit_10)
  have e: "decimal_value (js ''2'') = 2" by (simp add: decimal_value_def js_def)
  have f: "\<not> endsWith (js ''2'' @ js ''h,'') (js ''m'')" "\<not> endsWith (js ''2'' @ js ''h,'') (js ''h'')"
    "\<not> endsWith (js ''2'' @ js ''h,'') (js ''d'')"
    by (simp_all add: endsWith_def js_def)
  have g: "js ''toString'' \<notin> set (map fst [(js ''a'', JNull)])" by (simp add: js_def)
  have h: "to_string (JArr [JBool True]) = Inr (js ''true'')" by simp
  have i: "trim (js ''true'') = [] \<or> (\<not> is_digit 10 (hd (trim (js ''true'')))
      \<and> hd (trim (js ''true'')) \<noteq> 43 \<and> hd (trim (js ''true'')) \<noteq> 45)"
    by (simp add: trim_def js_def is_ws_def is_digit_10)
  have r: "round_double 2 = Fin 2" using round_double_safe [of 2] by simp
  have "parseReminderTime (JArr [JStr (js '' 2h''), JNull]) =
      Inr (Some (let v0 = round_double (of_nat (decimal_value (js ''2'')))
                 in if endsWith (js ''2'' @ js ''h,'') (js ''m'') then v0
                    else if endsWith (js ''2'' @ js ''h,'') (js ''h'') then js_mul v0 (Fin 60)
                    else if endsWith (js ''2'' @ js ''h,'') (js ''d'')
                      then js_mul (js_mul v0 (Fin 24)) (Fin 60)
                    else v0))"
    using other_inputs_via_string [of "JArr [JStr (js '' 2h''), JNull]" "[]" "[]" "js '' 2h,''" "js ''2''" "js ''h,''"]
      a b c d by blast
  then have one: "parseReminderTime (JArr [JStr (js '' 2h''), JNull]) = Inr (Some (Fin 2))"
    by (simp only: e f if_False Let_def of_nat_numeral r)
  have two: "parseReminderTime (JObj [(js ''a'', JNull)]) = Inr None"
    using other_inputs_via_string [of JNull "[(js ''a'', JNull)]"] g by blast
  have three: "parseReminderTime (JArr [JBool True]) = Inr None"
    using other_inputs_via_string [of "JArr [JBool True]" "[]" "[]" "js ''true''"] a h i by blast
  have g': "js ''toString'' \<in> set (map fst [(js ''toString'', JNull)])" by simp
  have four: "parseReminderTime (JObj [(js ''toString'', JNull)]) = Inl TypeError"
    using other_inputs_via_string [of JNull "[]" "[(js ''toString'', JNull)]"] g' by blast
  show ?thesis using b c one two h three four by simp
qed

text \<open>
  The claim as stated fails on a plain object with an own \<open>toString\<close> property: for
  \<open>{toString: 1}\<close> the conversion to a string throws a TypeError, so the parser does
  not fail with \<open>null\<close>, and the intake handler answers 500 where it answers 400 for
  \<open>null\<close>. It also fails on the array \<open>["0x10"]\<close>: its string form \<open>"0x10"\<close> begins
  with the decimal digit \<open>0\<close>, of value 0, and the parser returns 16.
\<close>

theorem own_toString_counterexample:
  "parseReminderTime (JObj [(js ''toString'', JNum (Fin 1))]) = Inl TypeError
   \<and> set_reminder (example_env all_ok all_ok)
         (example_request (JObj [(js ''toString'', JNum (Fin 1))])) empty_world
       = (respond 500 FailedToSetReminder, empty_world)
   \<and> to_string (JArr [JStr (js ''0x10'')]) = Inr (js ''0x10'')
   \<and> takeWhile (is_digit 10) (js ''0x10'') = js ''0''
   \<and> decimal_value (js ''0'') = 0
   \<and> parseReminderTime (JArr [JStr (js ''0x10'')]) = Inr (Some (Fin 16))"
proof -
  have a: "parseReminderTime (JObj [(js ''toString'', JNum (Fin 1))]) = Inl TypeError"
    by (simp add: parseReminderTime_def)
  have ne: "js ''a@b.c'' \<noteq> []" "js ''https://leetcode.com/problems/two-sum'' \<noteq> []"
    by (simp_all add: js_def)
  have b: "set_reminder (example_env all_ok all_ok)
         (example_request (JObj [(js ''toString'', JNum (Fin 1))])) empty_world
       = (respond 500 FailedToSetReminder, empty_world)"
    by (simp add: set_reminder_def example_request_def a ne)
  have c: "to_string (JArr [JStr (js ''0x10'')]) = Inr (js ''0x10'')" by simp
  have d: "takeWhile (is_digit 10) (js ''0x10'') = js ''0''"
    by (simp add: js_def is_digit_def digit_val_def)
  have e: "decimal_value (js ''0'') = 0" by (simp add: decimal_value_def js_def)
  have "parseReminderTime (JArr [JStr (js ''0x10'')]) = parseReminderTime (JStr (js ''0x10''))"
    using parse_via_string [of "JArr [JStr (js ''0x10'')]"] by simp
  also have "\<dots> = Inr (Some (Fin 16))" by (simp add: eval_defs)
  finally have f: "parseReminderTime (JArr [JStr (js ''0x10'')]) = Inr (Some (Fin 16))" .
  show ?thesis using a b c d e f by simp
qed


section \<open>The sweep handler: results\<close>

lemma mark_all_map:
  "mark_all rs docs = map (\<lambda>d. if rid d \<in> rid ` set rs then d\<lparr>sent := True\<rparr> else d) docs"
proof (induction rs arbitrary: docs)
  case Nil
  show ?case by (simp add: mark_all_def)
next
  case (Cons r rs)
  have "mark_all (r # rs) docs = mark_all rs (mark_sent (rid r) docs)" by (simp add: mark_all_def)
  also have "\<dots> = map (\<lambda>d. if rid d \<in> rid ` set rs then d\<lparr>sent := True\<rparr> else d)
      (mark_sent (rid r) docs)" by (rule Cons.IH)
  also have "\<dots> = map (\<lambda>d. if rid d \<in> rid ` set (r # rs) then d\<lparr>sent := True\<rparr> else d) docs"
    by (simp add: mark_sent_def)
  finally show ?case .
qed

lemma mark_all_distinct:
  assumes "distinct (map rid docs)" "set rs \<subseteq> set docs"
  shows "mark_all rs docs = map (\<lambda>d. if d \<in> set rs then d\<lparr>sent := True\<rparr> else d) docs"
proof -
  have inj: "inj_on rid (set docs)" using assms(1) by (simp add: distinct_map)
  have "(rid d \<in> rid ` set rs) = (d \<in> set rs)" if "d \<in> set docs" for d
    using inj that assms(2) by (auto simp add: inj_on_def)
  then show ?thesis by (simp add: mark_all_map cong: map_cong)
qed

lemma process_ok:
  assumes "\<forall>j<length rs. mail_ok e (k + j) \<and> save_ok e (k + j)"
  shows "process e k rs w =
    (True, w\<lparr>store := mark_all rs (store w),
            outbox := outbox w @ map (reviewMail e) rs,
            calls := calls w @ concat (map (sweep_calls e) rs)\<rparr>)"
  using assms
proof (induction rs arbitrary: k w)
  case Nil
  show ?case by (simp add: mark_all_def)
next
  case (Cons r rs)
  have here: "mail_ok e k" "save_ok e k" using Cons.prems by auto
  have "\<forall>j<length rs. mail_ok e (Suc k + j) \<and> save_ok e (Suc k + j)"
    using Cons.prems by auto
  note IH = Cons.IH [OF this]
  show ?case
    by (simp add: here IH Let_def mark_all_def sweep_calls_def)
qed

lemma process_fail:
  assumes "i < length rs" "\<forall>j<i. mail_ok e (k + j) \<and> save_ok e (k + j)"
    "\<not> (mail_ok e (k + i) \<and> save_ok e (k + i))"
  shows "process e k rs w =
    (False, w\<lparr>store := mark_all (take i rs) (store w),
             outbox := outbox w @ map (reviewMail e) (take (if mail_ok e (k + i) then Suc i else i) rs),
             calls := calls w @ concat (map (sweep_calls e) (take i rs))
                @ (if mail_ok e (k + i) then sweep_calls e (rs ! i)
                   else [SendMail (reviewMail e (rs ! i))])\<rparr>)"
  using assms
proof (induction rs arbitrary: i k w)
  case Nil
  then show ?case by simp
next
  case (Cons r rs)
  show ?case
  proof (cases i)
    case 0
    then show ?thesis using Cons.prems
      by (auto simp add: Let_def mark_all_def sweep_calls_def)
  next
    case (Suc i')
    have here: "mail_ok e k" "save_ok e k" using Cons.prems Suc by auto
    have a: "i' < length rs" using Cons.prems Suc by simp
    have b: "\<forall>j<i'. mail_ok e (Suc k + j) \<and> save_ok e (Suc k + j)"
    proof (intro allI impI)
      fix j assume "j < i'"
      then have "Suc j < i" using Suc by simp
      then show "mail_ok e (Suc k + j) \<and> save_ok e (Suc k + j)" using Cons.prems(2) by fastforce
    qed
    have c: "\<not> (mail_ok e (Suc k + i') \<and> save_ok e (Suc k + i'))" using Cons.prems(3) Suc by simp
    note IH = Cons.IH [OF a b c]
    show ?thesis
      by (simp add: here IH Let_def mark_all_def sweep_calls_def Suc)
  qed
qed

lemma due_eq: "due t = (\<lambda>r. scheduledFor r \<le> t \<and> \<not> sent r)"
  by (simp add: due_def fun_eq_iff)

lemma nth_in_take:
  assumes "distinct xs" "j < length xs" "xs ! j \<in> set (take i xs)"
  shows "j < i"
proof -
  from assms(3) obtain k where k: "k < length (take i xs)" "take i xs ! k = xs ! j"
    by (auto simp add: in_set_conv_nth)
  then have "k < i" "k < length xs" "xs ! k = xs ! j" by simp_all
  then have "k = j" using assms(1,2) by (simp add: nth_eq_iff_index_eq)
  then show ?thesis using \<open>k < i\<close> by simp
qed

text \<open>
  C5. On a sweep with the correct secret in which the query and every notification
  and store update succeed, the handler notifies, in the order fetched, exactly the
  records with \<open>scheduledFor \<le> now\<close> and \<open>sent = false\<close>, marks exactly those records
  sent (the documents of the store having distinct ids) and answers 200 with
  \<open>processedReminders\<close> the number of records fetched; with no due record it answers
  200 with \<open>processedReminders = 0\<close> and leaves store and outbox as they were.
\<close>

theorem sweep_all_succeed:
  "secret = Some (js ''Sanjeev'') \<and> find_ok e
     \<and> (\<forall>k<length (filter (\<lambda>r. scheduledFor r \<le> now e \<and> \<not> sent r) (store w)).
           mail_ok e k \<and> save_ok e k) \<longrightarrow>
   (let dueReminders = filter (\<lambda>r. scheduledFor r \<le> now e \<and> \<not> sent r) (store w);
        resp = fst (check_reminders e secret w);
        w' = snd (check_reminders e secret w)
    in resp = respond 200 (Processed (length dueReminders))
       \<and> outbox w' = outbox w @ map (reviewMail e) dueReminders
       \<and> calls w' = calls w @ Find (now e) # concat (map (sweep_calls e) dueReminders)
       \<and> (distinct (map rid (store w)) \<longrightarrow>
            store w' = map (\<lambda>d. if scheduledFor d \<le> now e \<and> \<not> sent d then d\<lparr>sent := True\<rparr> else d)
                         (store w))
       \<and> (dueReminders = [] \<longrightarrow>
            resp = respond 200 (Processed 0) \<and> store w' = store w \<and> outbox w' = outbox w))"
proof (intro impI, elim conjE)
  assume s: "secret = Some (js ''Sanjeev'')" and f: "find_ok e"
    and ok: "\<forall>k<length (filter (\<lambda>r. scheduledFor r \<le> now e \<and> \<not> sent r) (store w)).
           mail_ok e k \<and> save_ok e k"
  define d where "d = filter (\<lambda>r. scheduledFor r \<le> now e \<and> \<not> sent r) (store w)"
  define w1 where "w1 = w\<lparr>calls := calls w @ [Find (now e)]\<rparr>"
  have sw: "store w1 = store w" "outbox w1 = outbox w" "calls w1 = calls w @ [Find (now e)]"
    by (simp_all add: w1_def)
  have p: "process e 0 d w1 =
    (True, w1\<lparr>store := mark_all d (store w1),
            outbox := outbox w1 @ map (reviewMail e) d,
            calls := calls w1 @ concat (map (sweep_calls e) d)\<rparr>)"
    using ok by (intro process_ok) (simp add: d_def)
  have c: "check_reminders e secret w =
    (respond 200 (Processed (length d)),
     w1\<lparr>store := mark_all d (store w1),
            outbox := outbox w1 @ map (reviewMail e) d,
            calls := calls w1 @ concat (map (sweep_calls e) d)\<rparr>)"
    unfolding check_reminders_def Let_def w1_def [symmetric]
    by (simp add: s f due_eq sw d_def [symmetric] p)
  have st: "store (snd (check_reminders e secret w)) =
      map (\<lambda>d. if scheduledFor d \<le> now e \<and> \<not> sent d then d\<lparr>sent := True\<rparr> else d) (store w)"
    if "distinct (map rid (store w))"
  proof -
    have "mark_all d (store w) = map (\<lambda>x. if x \<in> set d then x\<lparr>sent := True\<rparr> else x) (store w)"
      using that by (intro mark_all_distinct) (auto simp add: d_def)
    also have "\<dots> = map (\<lambda>d. if scheduledFor d \<le> now e \<and> \<not> sent d then d\<lparr>sent := True\<rparr> else d) (store w)"
      by (rule map_cong) (auto simp add: d_def)
    finally show ?thesis by (simp add: c sw)
  qed
  have e0: "store (snd (check_reminders e secret w)) = store w" if "d = []"
    using that by (simp add: c sw mark_all_def)
  show "let dueReminders = filter (\<lambda>r. scheduledFor r \<le> now e \<and> \<not> sent r) (store w);
        resp = fst (check_reminders e secret w);
        w' = snd (check_reminders e secret w)
    in resp = respond 200 (Processed (length dueReminders))
       \<and> outbox w' = outbox w @ map (reviewMail e) dueReminders
       \<and> calls w' = calls w @ Find (now e) # concat (map (sweep_calls e) dueReminders)
       \<and> (distinct (map rid (store w)) \<longrightarrow>
            store w' = map (\<lambda>d. if scheduledFor d \<le> now e \<and> \<not> sent d then d\<lparr>sent := True\<rparr> else d)
                         (store w))
       \<and> (dueReminders = [] \<longrightarrow>
            resp = respond 200 (Processed 0) \<and> store w' = store w \<and> outbox w' = outbox w)"
    unfolding Let_def d_def [symmetric]
    using st e0 by (simp add: c sw)
qed

text \<open>
  An instance: of four stored records two are due and unsent; both are notified and
  marked, and the answer is 200 with \<open>processedReminders = 2\<close>.
\<close>

theorem sweep_all_succeed_witness:
  "fst (check_reminders (example_env all_ok all_ok) (Some (js ''Sanjeev'')) example_world)
     = respond 200 (Processed 2)
   \<and> map sent (store (snd (check_reminders (example_env all_ok all_ok) (Some (js ''Sanjeev'')) example_world)))
     = [True, True, True, False]
   \<and> map mail_to (outbox (snd (check_reminders (example_env all_ok all_ok) (Some (js ''Sanjeev'')) example_world)))
     = [js ''a@b.c'', js ''a@b.c'']"
proof -
  have a: "find_ok (example_env all_ok all_ok)" "now (example_env all_ok all_ok) = 1700000000000"
    "mail_ok (example_env all_ok all_ok) = all_ok" "save_ok (example_env all_ok all_ok) = all_ok"
    by (simp_all add: example_env_def)
  have d: "filter (\<lambda>r. scheduledFor r \<le> 1700000000000 \<and> \<not> sent r) (store example_world)
      = [example_reminder 1 1000 False, example_reminder 3 3000 False]"
    by (simp add: example_world_def example_reminder_def)
  have i: "distinct (map rid (store example_world))"
    by (simp add: example_world_def example_reminder_def)
  have s: "store example_world = [example_reminder 1 1000 False, example_reminder 2 2000 True,
               example_reminder 3 3000 False, example_reminder 4 1700000000005 False]"
    "outbox example_world = []"
    by (simp_all add: example_world_def)
  have prem: "Some (js ''Sanjeev'') = Some (js ''Sanjeev'') \<and> find_ok (example_env all_ok all_ok)
     \<and> (\<forall>k<length (filter (\<lambda>r. scheduledFor r \<le> now (example_env all_ok all_ok) \<and> \<not> sent r)
            (store example_world)).
           mail_ok (example_env all_ok all_ok) k \<and> save_ok (example_env all_ok all_ok) k)"
    by (simp add: a all_ok_def)
  note T = sweep_all_succeed [of "Some (js ''Sanjeev'')" "example_env all_ok all_ok" example_world,
      THEN mp, OF prem, unfolded Let_def a d]
  have r1: "fst (check_reminders (example_env all_ok all_ok) (Some (js ''Sanjeev'')) example_world)
     = respond 200 (Processed 2)"
    using T by (simp add: numeral_2_eq_2)
  have r2: "outbox (snd (check_reminders (example_env all_ok all_ok) (Some (js ''Sanjeev'')) example_world))
     = map (reviewMail (example_env all_ok all_ok))
         [example_reminder 1 1000 False, example_reminder 3 3000 False]"
    using T by (simp add: s)
  have r3: "store (snd (check_reminders (example_env all_ok all_ok) (Some (js ''Sanjeev'')) example_world))
     = map (\<lambda>d. if scheduledFor d \<le> 1700000000000 \<and> \<not> sent d then d\<lparr>sent := True\<rparr> else d)
         (store example_world)"
    using T i by blast
  show ?thesis
    unfolding r1 r2 r3 by (simp add: s example_reminder_def reviewMail_def)
qed

text \<open>
  C6. When, during a sweep, the notification or the update of the \<open>i\<close>-th fetched
  record is the first call to fail, the answer is 500; the handler has made the calls
  for the records before it and the failing call and none after: the mails delivered
  are those of the records up to the failing one (that one included only when its
  notification succeeded and its update failed), exactly the records before it are
  marked sent, and every fetched record from the failing one on is still in the store,
  unsent.
\<close>

theorem sweep_fail_fast:
  "secret = Some (js ''Sanjeev'') \<and> find_ok e
     \<and> i < length (filter (\<lambda>r. scheduledFor r \<le> now e \<and> \<not> sent r) (store w))
     \<and> (\<forall>j<i. mail_ok e j \<and> save_ok e j) \<and> \<not> (mail_ok e i \<and> save_ok e i) \<longrightarrow>
   (let dueReminders = filter (\<lambda>r. scheduledFor r \<le> now e \<and> \<not> sent r) (store w);
        resp = fst (check_reminders e secret w);
        w' = snd (check_reminders e secret w)
    in resp = respond 500 FailedToProcessReminders
       \<and> outbox w' = outbox w
            @ map (reviewMail e) (take (if mail_ok e i then Suc i else i) dueReminders)
       \<and> calls w' = calls w @ Find (now e) # concat (map (sweep_calls e) (take i dueReminders))
            @ (if mail_ok e i then sweep_calls e (dueReminders ! i)
               else [SendMail (reviewMail e (dueReminders ! i))])
       \<and> (distinct (map rid (store w)) \<longrightarrow>
            store w' = map (\<lambda>d. if d \<in> set (take i dueReminders) then d\<lparr>sent := True\<rparr> else d)
                         (store w)
          \<and> (\<forall>j. i \<le> j \<and> j < length dueReminders \<longrightarrow>
                dueReminders ! j \<in> set (store w') \<and> \<not> sent (dueReminders ! j))))"
proof (intro impI, elim conjE)
  define d where "d = filter (\<lambda>r. scheduledFor r \<le> now e \<and> \<not> sent r) (store w)"
  define w1 where "w1 = w\<lparr>calls := calls w @ [Find (now e)]\<rparr>"
  assume s: "secret = Some (js ''Sanjeev'')" and f: "find_ok e"
    and i: "i < length (filter (\<lambda>r. scheduledFor r \<le> now e \<and> \<not> sent r) (store w))"
    and ok: "\<forall>j<i. mail_ok e j \<and> save_ok e j" and bad: "\<not> (mail_ok e i \<and> save_ok e i)"
  have sw: "store w1 = store w" "outbox w1 = outbox w" "calls w1 = calls w @ [Find (now e)]"
    by (simp_all add: w1_def)
  have il: "i < length d" using i by (simp add: d_def)
  have p: "process e 0 d w1 =
    (False, w1\<lparr>store := mark_all (take i d) (store w1),
             outbox := outbox w1 @ map (reviewMail e) (take (if mail_ok e (0 + i) then Suc i else i) d),
             calls := calls w1 @ concat (map (sweep_calls e) (take i d))
                @ (if mail_ok e (0 + i) then sweep_calls e (d ! i)
                   else [SendMail (reviewMail e (d ! i))])\<rparr>)"
    using process_fail [of i d e 0 w1] il ok bad by simp
  have c: "check_reminders e secret w =
    (respond 500 FailedToProcessReminders,
     w1\<lparr>store := mark_all (take i d) (store w1),
             outbox := outbox w1 @ map (reviewMail e) (take (if mail_ok e i then Suc i else i) d),
             calls := calls w1 @ concat (map (sweep_calls e) (take i d))
                @ (if mail_ok e i then sweep_calls e (d ! i)
                   else [SendMail (reviewMail e (d ! i))])\<rparr>)"
    unfolding check_reminders_def Let_def w1_def [symmetric]
    using p by (simp add: s f due_eq sw d_def [symmetric])
  have st: "store (snd (check_reminders e secret w)) =
      map (\<lambda>x. if x \<in> set (take i d) then x\<lparr>sent := True\<rparr> else x) (store w)
    \<and> (\<forall>j. i \<le> j \<and> j < length d \<longrightarrow>
          d ! j \<in> set (store (snd (check_reminders e secret w))) \<and> \<not> sent (d ! j))"
    if dist: "distinct (map rid (store w))"
  proof -
    have sub: "set (take i d) \<subseteq> set (store w)"
      using set_take_subset [of i d] by (auto simp add: d_def)
    have m: "mark_all (take i d) (store w) =
        map (\<lambda>x. if x \<in> set (take i d) then x\<lparr>sent := True\<rparr> else x) (store w)"
      using dist sub by (rule mark_all_distinct)
    have eq: "store (snd (check_reminders e secret w)) =
        map (\<lambda>x. if x \<in> set (take i d) then x\<lparr>sent := True\<rparr> else x) (store w)"
      by (simp add: c sw m)
    have dd: "distinct d" using dist by (simp add: d_def distinct_map)
    have later: "d ! j \<in> set (store (snd (check_reminders e secret w))) \<and> \<not> sent (d ! j)"
      if "i \<le> j" "j < length d" for j
    proof -
      have mem: "d ! j \<in> set d" using that(2) by simp
      then have "d ! j \<in> set (store w)" and ns: "\<not> sent (d ! j)" by (simp_all add: d_def)
      moreover have "d ! j \<notin> set (take i d)"
        using nth_in_take [OF dd that(2), of i] that(1) by auto
      ultimately have "(\<lambda>x. if x \<in> set (take i d) then x\<lparr>sent := True\<rparr> else x) (d ! j)
          \<in> (\<lambda>x. if x \<in> set (take i d) then x\<lparr>sent := True\<rparr> else x) ` set (store w)"
        by (intro imageI)
      moreover have "(\<lambda>x. if x \<in> set (take i d) then x\<lparr>sent := True\<rparr> else x) (d ! j) = d ! j"
        using \<open>d ! j \<notin> set (take i d)\<close> by simp
      ultimately have "d ! j \<in> set (map (\<lambda>x. if x \<in> set (take i d) then x\<lparr>sent := True\<rparr> else x) (store w))"
        by (simp only: set_map)
      then show ?thesis using ns by (simp only: eq simp_thms)
    qed
    show ?thesis using eq later by blast
  qed
  show "let dueReminders = filter (\<lambda>r. scheduledFor r \<le> now e \<and> \<not> sent r) (store w);
        resp = fst (check_reminders e secret w);
        w' = snd (check_reminders e secret w)
    in resp = respond 500 FailedToProcessReminders
       \<and> outbox w' = outbox w
            @ map (reviewMail e) (take (if mail_ok e i then Suc i else i) dueReminders)
       \<and> calls w' = calls w @ Find (now e) # concat (map (sweep_calls e) (take i dueReminders))
            @ (if mail_ok e i then sweep_calls e (dueReminders ! i)
               else [SendMail (reviewMail e (dueReminders ! i))])
       \<and> (distinct (map rid (store w)) \<longrightarrow>
            store w' = map (\<lambda>d. if d \<in> set (take i dueReminders) then d\<lparr>sent := True\<rparr> else d)
                         (store w)
          \<and> (\<forall>j. i \<le> j \<and> j < length dueReminders \<longrightarrow>
                dueReminders ! j \<in> set (store w') \<and> \<not> sent (dueReminders ! j)))"
  proof -
    have r: "fst (check_reminders e secret w) = respond 500 FailedToProcessReminders"
      by (simp add: c)
    have ob: "outbox (snd (check_reminders e secret w)) = outbox w
            @ map (reviewMail e) (take (if mail_ok e i then Suc i else i) d)"
      by (simp add: c sw)
    have cl: "calls (snd (check_reminders e secret w)) =
        calls w @ Find (now e) # concat (map (sweep_calls e) (take i d))
            @ (if mail_ok e i then sweep_calls e (d ! i)
               else [SendMail (reviewMail e (d ! i))])"
      by (simp add: c sw)
    show ?thesis
      unfolding Let_def d_def [symmetric] r ob cl
      by (intro conjI impI refl) (use st in blast)+
  qed
qed

text \<open>
  An instance: the notification of the first of two due records fails; the answer is
  500, nothing is delivered, the store is unchanged, and the second due record is
  still stored unsent.
\<close>

theorem sweep_fail_fast_witness:
  "fst (check_reminders (example_env (fails_at 0) all_ok) (Some (js ''Sanjeev'')) example_world)
     = respond 500 FailedToProcessReminders
   \<and> store (snd (check_reminders (example_env (fails_at 0) all_ok) (Some (js ''Sanjeev'')) example_world))
     = store example_world
   \<and> outbox (snd (check_reminders (example_env (fails_at 0) all_ok) (Some (js ''Sanjeev'')) example_world))
     = []
   \<and> example_reminder 3 3000 False
       \<in> set (store (snd (check_reminders (example_env (fails_at 0) all_ok) (Some (js ''Sanjeev'')) example_world)))"
proof -
  have a: "find_ok (example_env (fails_at 0) all_ok)" "now (example_env (fails_at 0) all_ok) = 1700000000000"
    "mail_ok (example_env (fails_at 0) all_ok) = fails_at 0" "save_ok (example_env (fails_at 0) all_ok) = all_ok"
    by (simp_all add: example_env_def)
  have d: "filter (\<lambda>r. scheduledFor r \<le> 1700000000000 \<and> \<not> sent r) (store example_world)
      = [example_reminder 1 1000 False, example_reminder 3 3000 False]"
    by (simp add: example_world_def example_reminder_def)
  have dist: "distinct (map rid (store example_world))"
    by (simp add: example_world_def example_reminder_def)
  have prem: "Some (js ''Sanjeev'') = Some (js ''Sanjeev'') \<and> find_ok (example_env (fails_at 0) all_ok)
     \<and> 0 < length (filter (\<lambda>r. scheduledFor r \<le> now (example_env (fails_at 0) all_ok) \<and> \<not> sent r)
            (store example_world))
     \<and> (\<forall>j<0. mail_ok (example_env (fails_at 0) all_ok) j \<and> save_ok (example_env (fails_at 0) all_ok) j)
     \<and> \<not> (mail_ok (example_env (fails_at 0) all_ok) 0 \<and> save_ok (example_env (fails_at 0) all_ok) 0)"
    by (simp add: a d fails_at_def)
  note T = sweep_fail_fast [of "Some (js ''Sanjeev'')" "example_env (fails_at 0) all_ok" 0 example_world,
      THEN mp, OF prem, unfolded Let_def a d]
  have r1: "fst (check_reminders (example_env (fails_at 0) all_ok) (Some (js ''Sanjeev'')) example_world)
     = respond 500 FailedToProcessReminders"
    using T by simp
  have r2: "outbox (snd (check_reminders (example_env (fails_at 0) all_ok) (Some (js ''Sanjeev'')) example_world))
     = []"
    using T by (simp add: fails_at_def example_world_def)
  have r3: "store (snd (check_reminders (example_env (fails_at 0) all_ok) (Some (js ''Sanjeev'')) example_world))
     = store example_world"
    using T dist by (simp add: map_idI)
  have r4: "example_reminder 3 3000 False
       \<in> set (store (snd (check_reminders (example_env (fails_at 0) all_ok) (Some (js ''Sanjeev'')) example_world)))"
    unfolding r3 by (simp add: example_world_def)
  show ?thesis using r1 r2 r3 r4 by simp
qed

text \<open>
  C7 (as amended). A sweep request whose \<open>x-cron-secret\<close> header is absent or differs
  from the string \<open>Sanjeev\<close> is answered 401 and leaves the world as it was: no call
  to the store or the transport is made. The expected value is that fixed string,
  whatever the environment variables hold: with the header \<open>Sanjeev\<close> the request is
  never answered 401, and the store is queried.
\<close>

theorem sweep_unauthorized:
  "(secret \<noteq> Some (js ''Sanjeev'') \<longrightarrow>
      check_reminders (e\<lparr>process_env := pe\<rparr>) secret w = (respond 401 Unauthorized, w))
   \<and> (secret = Some (js ''Sanjeev'') \<longrightarrow>
      status (fst (check_reminders (e\<lparr>process_env := pe\<rparr>) secret w)) \<noteq> 401
      \<and> calls (snd (check_reminders (e\<lparr>process_env := pe\<rparr>) secret w)) \<noteq> calls w)"
proof -
  have a: "check_reminders (e\<lparr>process_env := pe\<rparr>) secret w = (respond 401 Unauthorized, w)"
    if "secret \<noteq> Some (js ''Sanjeev'')"
    using that by (simp add: check_reminders_def)
  have grow: "\<exists>cs. calls (snd (process e' k rs w0)) = calls w0 @ cs" for e' k rs w0
  proof (induction rs arbitrary: k w0)
    case Nil
    show ?case by simp
  next
    case (Cons r rs)
    obtain cs where "calls (snd (process e' (Suc k) rs
        (w0\<lparr>calls := calls w0 @ [SendMail (reviewMail e' r)],
            outbox := outbox w0 @ [reviewMail e' r],
            calls := calls w0 @ [SendMail (reviewMail e' r)] @ [Save (r\<lparr>sent := True\<rparr>)],
            store := mark_sent (rid r) (store w0)\<rparr>))) =
        (calls w0 @ [SendMail (reviewMail e' r)] @ [Save (r\<lparr>sent := True\<rparr>)]) @ cs"
      using Cons.IH [of "Suc k" "w0\<lparr>calls := calls w0 @ [SendMail (reviewMail e' r)],
            outbox := outbox w0 @ [reviewMail e' r],
            calls := calls w0 @ [SendMail (reviewMail e' r)] @ [Save (r\<lparr>sent := True\<rparr>)],
            store := mark_sent (rid r) (store w0)\<rparr>"] by auto
    then show ?case by (auto simp add: Let_def)
  qed
  have b: "status (fst (check_reminders (e\<lparr>process_env := pe\<rparr>) secret w)) \<noteq> 401
      \<and> calls (snd (check_reminders (e\<lparr>process_env := pe\<rparr>) secret w)) \<noteq> calls w"
    if "secret = Some (js ''Sanjeev'')"
  proof -
    obtain cs where "calls (snd (process (e\<lparr>process_env := pe\<rparr>) 0
        (filter (due (now e)) (store w)) (w\<lparr>calls := calls w @ [Find (now e)]\<rparr>)))
        = (calls w @ [Find (now e)]) @ cs"
      using grow [of "e\<lparr>process_env := pe\<rparr>" 0 "filter (due (now e)) (store w)"
          "w\<lparr>calls := calls w @ [Find (now e)]\<rparr>"] by auto
    then show ?thesis using that
      by (auto simp add: check_reminders_def Let_def respond_def split: prod.splits)
  qed
  show ?thesis using a b by blast
qed

text \<open>
  Instances: the header \<open>sanjeev\<close> and an absent header are answered 401; the header
  \<open>Sanjeev\<close> is not.
\<close>

theorem sweep_unauthorized_witness:
  "check_reminders (example_env all_ok all_ok) (Some (js ''sanjeev'')) example_world
     = (respond 401 Unauthorized, example_world)
   \<and> check_reminders (example_env all_ok all_ok) None example_world
     = (respond 401 Unauthorized, example_world)
   \<and> status (fst (check_reminders (example_env all_ok all_ok) (Some (js ''Sanjeev'')) example_world))
     \<noteq> 401"
proof -
  have "example_env all_ok all_ok = (example_env all_ok all_ok)\<lparr>process_env := process_env (example_env all_ok all_ok)\<rparr>"
    by simp
  moreover have "Some (js ''sanjeev'') \<noteq> Some (js ''Sanjeev'')" by (simp add: js_def)
  moreover have "None \<noteq> Some (js ''Sanjeev'')" by simp
  ultimately show ?thesis
    using sweep_unauthorized [where secret = "Some (js ''sanjeev'')" and e = "example_env all_ok all_ok"
        and pe = "process_env (example_env all_ok all_ok)" and w = example_world]
      sweep_unauthorized [where secret = None and e = "example_env all_ok all_ok"
        and pe = "process_env (example_env all_ok all_ok)" and w = example_world]
      sweep_unauthorized [where secret = "Some (js ''Sanjeev'')" and e = "example_env all_ok all_ok"
        and pe = "process_env (example_env all_ok all_ok)" and w = example_world]
    by simp
qed

text \<open>
  The expected secret is not supplied through the environment: in an environment
  where every variable holds \<open>hunter2\<close>, the header \<open>hunter2\<close> is answered 401 and the
  header \<open>Sanjeev\<close> is accepted.
\<close>

theorem secret_not_from_environment_counterexample:
  "process_env (example_env all_ok all_ok) ''CRON_SECRET'' = Some (js ''hunter2'')
   \<and> check_reminders (example_env all_ok all_ok) (Some (js ''hunter2'')) example_world
       = (respond 401 Unauthorized, example_world)
   \<and> fst (check_reminders (example_env all_ok all_ok) (Some (js ''Sanjeev'')) example_world)
       = respond 200 (Processed 2)"
proof -
  have a: "process_env (example_env all_ok all_ok) ''CRON_SECRET'' = Some (js ''hunter2'')"
    by (simp add: example_env_def)
  have b: "check_reminders (example_env all_ok all_ok) (Some (js ''hunter2'')) example_world
       = (respond 401 Unauthorized, example_world)"
    by (simp add: check_reminders_def js_def)
  have c: "fst (check_reminders (example_env all_ok all_ok) (Some (js ''Sanjeev'')) example_world)
       = respond 200 (Processed 2)"
    by (simp add: check_reminders_def example_env_def example_world_def example_reminder_def
        due_def all_ok_def Let_def mark_sent_def numeral_2_eq_2)
  show ?thesis using a b c by simp
qed


section \<open>The intake handler: results\<close>

lemma schedule_outcomes:
  "schedule e em url title minutes w =
    (let scheduled = calculateReminderTime (now e) minutes;
         m = confirmationMail e em url title (toLocaleString e scheduled)
     in if \<not> mail_ok e 0
        then (respond 500 FailedToSetReminder, w\<lparr>calls := calls w @ [SendMail m]\<rparr>)
        else case scheduled of
          InvalidDate \<Rightarrow> (respond 500 FailedToSetReminder,
              w\<lparr>calls := calls w @ [SendMail m], outbox := outbox w @ [m]\<rparr>)
        | Date t \<Rightarrow>
            if \<not> save_ok e 0
            then (respond 500 FailedToSetReminder,
              w\<lparr>calls := calls w @ [SendMail m, Save (new_Reminder e em url title t (store w))],
                outbox := outbox w @ [m]\<rparr>)
            else (respond 200 (ReminderSet (toLocaleString e scheduled)),
              w\<lparr>calls := calls w @ [SendMail m, Save (new_Reminder e em url title t (store w))],
                outbox := outbox w @ [m],
                store := store w @ [new_Reminder e em url title t (store w)]\<rparr>))"
  by (simp add: schedule_def Let_def split: jsdate.splits)

lemma set_reminder_outcomes:
  "(\<exists>b. set_reminder e req w = (respond 400 b, w))
   \<or> set_reminder e req w = (respond 500 FailedToSetReminder, w)
   \<or> (\<exists>em url minutes. req_email req = Some em \<and> req_problemUrl req = Some url
        \<and> truthy (req_reminderMinutes req)
        \<and> parseReminderTime (req_reminderMinutes req) = Inr (Some minutes)
        \<and> \<not> js_le minutes (Fin 0)
        \<and> set_reminder e req w = schedule e em url (req_problemTitle req) minutes w)"
  by (auto simp add: set_reminder_def split: option.splits sum.splits)

text \<open>
  C4. The intake handler calls the transport before the store: the calls of one
  request are none, the confirmation mail alone, or the confirmation mail followed by
  the save of the new record. Whenever the confirmation mail is dispatched and the
  dispatch fails, the answer is 500, no save is attempted, and store and outbox are
  as they were. The store changes only by appending the new record after a delivered
  mail, and never when the answer is not 200.
\<close>

theorem intake_notify_then_persist:
  "(let resp = fst (set_reminder e req w);
        w' = snd (set_reminder e req w);
        made = drop (length (calls w)) (calls w')
    in calls w' = calls w @ made
       \<and> (made = [] \<or> (\<exists>m. made = [SendMail m]) \<or> (\<exists>m r. made = [SendMail m, Save r]))
       \<and> (made \<noteq> [] \<and> \<not> mail_ok e 0 \<longrightarrow>
            resp = respond 500 FailedToSetReminder \<and> store w' = store w
            \<and> outbox w' = outbox w \<and> (\<forall>r. Save r \<notin> set made))
       \<and> (status resp \<noteq> 200 \<longrightarrow> store w' = store w)
       \<and> (store w' \<noteq> store w \<longrightarrow>
            mail_ok e 0
            \<and> (\<exists>m r. made = [SendMail m, Save r] \<and> outbox w' = outbox w @ [m]
                  \<and> store w' = store w @ [r])))"
proof -
  consider (early) b where "set_reminder e req w = (respond 400 b, w)"
    | (thrown) "set_reminder e req w = (respond 500 FailedToSetReminder, w)"
    | (sched) em url minutes where
        "set_reminder e req w = schedule e em url (req_problemTitle req) minutes w"
    using set_reminder_outcomes [of e req w] by blast
  then show ?thesis
  proof cases
    case early
    then show ?thesis by (simp add: respond_def)
  next
    case thrown
    then show ?thesis by (simp add: respond_def)
  next
    case sched
    show ?thesis
      unfolding sched schedule_outcomes Let_def
      by (simp add: respond_def split: jsdate.splits)
  qed
qed

text \<open>
  An instance: a valid request for \<open>"30m"\<close> whose mail dispatch fails is answered 500
  after one call, with the store unchanged.
\<close>

theorem intake_notify_then_persist_witness:
  "fst (set_reminder (example_env (fails_at 0) all_ok) (example_request (JStr (js ''30m''))) example_world)
     = respond 500 FailedToSetReminder
   \<and> store (snd (set_reminder (example_env (fails_at 0) all_ok) (example_request (JStr (js ''30m''))) example_world))
     = store example_world
   \<and> length (calls (snd (set_reminder (example_env (fails_at 0) all_ok) (example_request (JStr (js ''30m''))) example_world)))
     = 1"
proof -
  have p: "parseReminderTime (JStr (js ''30m'')) = Inr (Some (Fin 30))" by (simp add: eval_defs)
  have c: "calls (snd (set_reminder (example_env (fails_at 0) all_ok) (example_request (JStr (js ''30m''))) example_world))
      = [SendMail (confirmationMail (example_env (fails_at 0) all_ok) (js ''a@b.c'')
           (js ''https://leetcode.com/problems/two-sum'') None (js ''11/14/23, 10:13 PM''))]"
  proof -
    have ne: "js ''a@b.c'' \<noteq> []" "js ''https://leetcode.com/problems/two-sum'' \<noteq> []"
      "js ''30m'' \<noteq> []"
      by (simp_all add: js_def)
    show ?thesis
      by (simp add: set_reminder_def example_request_def p ne schedule_outcomes Let_def
          example_env_def fails_at_def example_world_def)
  qed
  have m: "\<not> mail_ok (example_env (fails_at 0) all_ok) 0" by (simp add: example_env_def fails_at_def)
  have e: "calls example_world = []" by (simp add: example_world_def)
  note T = intake_notify_then_persist [of "example_env (fails_at 0) all_ok"
      "example_request (JStr (js ''30m''))" example_world, unfolded Let_def c e]
  have "fst (set_reminder (example_env (fails_at 0) all_ok) (example_request (JStr (js ''30m''))) example_world)
     = respond 500 FailedToSetReminder
   \<and> store (snd (set_reminder (example_env (fails_at 0) all_ok) (example_request (JStr (js ''30m''))) example_world))
     = store example_world"
    using T m by simp
  then show ?thesis by (simp add: c)
qed


lemma to_integer_of_int: "to_integer (of_int z) = z"
  by (simp add: to_integer_def)

lemma new_Date_of_int:
  "new_Date (Fin (of_int z)) = (if \<bar>z\<bar> \<le> 8640000000000000 then Date z else InvalidDate)"
proof -
  have "(\<bar>of_int z :: rat\<bar> \<le> 8640000000000000) = (\<bar>z\<bar> \<le> 8640000000000000)"
  proof -
    have "(\<bar>of_int z :: rat\<bar> \<le> of_int 8640000000000000) = (\<bar>z\<bar> \<le> 8640000000000000)"
      by (simp only: of_int_abs [symmetric] of_int_le_iff)
    then show ?thesis by simp
  qed
  then show ?thesis by (simp add: new_Date_def to_integer_of_int)
qed

lemma calculate_whole:
  assumes "0 \<le> k" "\<bar>t\<bar> + k * 60000 < 2 ^ 53"
  shows "calculateReminderTime t (Fin (of_int k)) =
    (if \<bar>t + k * 60000\<bar> \<le> 8640000000000000 then Date (t + k * 60000) else InvalidDate)"
proof -
  have a: "\<bar>k * 60\<bar> < 2 ^ 53" "\<bar>k * 60000\<bar> < 2 ^ 53" "\<bar>t + k * 60000\<bar> < 2 ^ 53"
    using assms by simp_all
  have "(of_int k :: rat) * 60 = of_int (k * 60)" by simp
  then have m1: "js_mul (Fin (of_int k)) (Fin 60) = Fin (of_int (k * 60))"
    using round_double_safe [OF a(1)] by (simp only: js_mul.simps)
  have "(of_int (k * 60) :: rat) * 1000 = of_int (k * 60000)" by simp
  then have m2: "js_mul (Fin (of_int (k * 60))) (Fin 1000) = Fin (of_int (k * 60000))"
    using round_double_safe [OF a(2)] by (simp only: js_mul.simps)
  have "(of_int t :: rat) + of_int (k * 60000) = of_int (t + k * 60000)" by simp
  then have m3: "js_add (Fin (of_int t)) (Fin (of_int (k * 60000))) = Fin (of_int (t + k * 60000))"
    using round_double_safe [OF a(3)] by (simp only: js_add.simps)
  show ?thesis
    unfolding calculateReminderTime_def m1 m2 m3 new_Date_of_int ..
qed

lemma calculate_not_finite:
  "calculateReminderTime t NaN = InvalidDate" "calculateReminderTime t PosInf = InvalidDate"
  "calculateReminderTime t NegInf = InvalidDate"
  by (simp_all add: calculateReminderTime_def new_Date_def)

lemma new_Date_large:
  assumes "x = PosInf \<or> (\<exists>j. x = Fin (of_int j) \<and> 2 ^ 53 \<le> j)"
  shows "new_Date x = InvalidDate"
proof -
  have "new_Date (Fin (of_int j)) = InvalidDate" if "2 ^ 53 \<le> j" for j :: int
    using that by (simp add: new_Date_of_int)
  then show ?thesis using assms by (auto simp add: new_Date_def)
qed

lemma calculate_whole_total:
  assumes k: "0 < k" and t: "\<bar>t\<bar> \<le> 8640000000000000"
  shows "calculateReminderTime t (Fin (of_int k)) =
    (if t + k * 60000 \<le> 8640000000000000 then Date (t + k * 60000) else InvalidDate)"
proof (cases "k * 60000 < 2 ^ 56")
  case True
  have a: "\<bar>k * 60\<bar> < 2 ^ 53" "\<bar>k * 7500\<bar> < 2 ^ 53" using True k by simp_all
  have "(of_int k :: rat) * 60 = of_int (k * 60)" by simp
  then have m1: "js_mul (Fin (of_int k)) (Fin 60) = Fin (of_int (k * 60))"
    using round_double_safe [OF a(1)] by (simp only: js_mul.simps)
  have "(of_int (k * 60) :: rat) * 1000 = of_int (k * 7500 * 2 ^ 3)" by simp
  moreover have "k * 7500 * 2 ^ 3 = k * 60000" by simp
  ultimately have m2: "js_mul (Fin (of_int (k * 60))) (Fin 1000) = Fin (of_int (k * 60000))"
    using round_double_scaled [OF a(2), of 3] by (simp only: js_mul.simps)
  have s: "js_add (Fin (of_int t)) (Fin (of_int (k * 60000))) = round_double (of_int (t + k * 60000))"
    by simp
  show ?thesis
  proof (cases "t + k * 60000 < 2 ^ 53")
    case small: True
    have "\<bar>t + k * 60000\<bar> < 2 ^ 53" using small t k by simp
    then have m3: "round_double (of_int (t + k * 60000)) = Fin (of_int (t + k * 60000))"
      by (rule round_double_safe)
    have "\<bar>t + k * 60000\<bar> \<le> 8640000000000000 \<longleftrightarrow> t + k * 60000 \<le> 8640000000000000"
      using t k by auto
    then show ?thesis
      unfolding calculateReminderTime_def m1 m2 s m3 new_Date_of_int by simp
  next
    case False
    then have "2 ^ 53 \<le> t + k * 60000" by simp
    then have "new_Date (round_double (of_int (t + k * 60000))) = InvalidDate"
      using round_double_lower [of 53 "t + k * 60000"] by (intro new_Date_large) blast
    then show ?thesis
      unfolding calculateReminderTime_def m1 m2 s using False by simp
  qed
next
  case False
  then have big: "2 ^ 56 \<le> k * 60000" by simp
  have notle: "\<not> t + k * 60000 \<le> 8640000000000000" using big t by simp
  define x1 where "x1 = js_mul (Fin (of_int k)) (Fin 60)"
  define x2 where "x2 = js_mul x1 (Fin 1000)"
  define x3 where "x3 = js_add (Fin (of_int t)) x2"
  have "2 ^ 46 \<le> k * 60" using big by simp
  from round_double_lower [OF this]
  have p1: "x1 = PosInf \<or> (\<exists>j. x1 = Fin (of_int j) \<and> 2 ^ 46 \<le> j)"
    by (simp add: x1_def)
  have step2: "js_mul (Fin (of_int j)) (Fin 1000) = PosInf
      \<or> (\<exists>i. js_mul (Fin (of_int j)) (Fin 1000) = Fin (of_int i) \<and> 2 ^ 55 \<le> i)"
    if "2 ^ 46 \<le> j" for j :: int
  proof -
    have "2 ^ 55 \<le> j * 1000" using that by simp
    from round_double_lower [OF this] show ?thesis by simp
  qed
  have p2: "x2 = PosInf \<or> (\<exists>j. x2 = Fin (of_int j) \<and> 2 ^ 55 \<le> j)"
    using p1
  proof (elim disjE exE conjE)
    assume "x1 = PosInf"
    then show ?thesis by (simp add: x2_def)
  next
    fix j assume "x1 = Fin (of_int j)" "2 ^ 46 \<le> j"
    then show ?thesis using step2 [of j] by (simp only: x2_def)
  qed
  have step3: "js_add (Fin (of_int t)) (Fin (of_int j)) = PosInf
      \<or> (\<exists>i. js_add (Fin (of_int t)) (Fin (of_int j)) = Fin (of_int i) \<and> 2 ^ 53 \<le> i)"
    if "2 ^ 55 \<le> j" for j :: int
  proof -
    have "2 ^ 53 \<le> t + j" using that t by simp
    from round_double_lower [OF this] show ?thesis by simp
  qed
  have p3: "x3 = PosInf \<or> (\<exists>j. x3 = Fin (of_int j) \<and> 2 ^ 53 \<le> j)"
    using p2
  proof (elim disjE exE conjE)
    assume "x2 = PosInf"
    then show ?thesis by (simp add: x3_def)
  next
    fix j assume "x2 = Fin (of_int j)" "2 ^ 55 \<le> j"
    then show ?thesis using step3 [of j] by (simp only: x3_def)
  qed
  have "calculateReminderTime t (Fin (of_int k)) = new_Date x3"
    by (simp only: calculateReminderTime_def x1_def x2_def x3_def)
  then show ?thesis using new_Date_large [OF p3] notle by simp
qed

lemma parse_not_NaN:
  assumes "parseReminderTime v = Inr (Some NaN)"
  shows "v = JNum NaN"
proof (cases "\<forall>x. v \<noteq> JNum x")
  case True
  show ?thesis
  proof (cases "to_string v")
    case (Inl ex)
    then show ?thesis using parse_via_string [OF True] assms by simp
  next
    case (Inr s)
    then have "parseReminderTime (JStr s) = Inr (Some NaN)"
      using parse_via_string [OF True] assms by simp
    then have "whole NaN" using parse_text_whole [of s] by simp
    then show ?thesis by (simp add: whole_def is_integer_def)
  qed
next
  case False
  then obtain x where "v = JNum x" by blast
  then show ?thesis using assms by (simp add: parseReminderTime_def)
qed

text \<open>
  C8 (as amended). The intake handler either leaves the store as it was or appends
  one record. For the appended record the parsed minute count \<open>m\<close> is a finite Number
  with \<open>m > 0\<close>, and \<open>scheduledFor\<close> is the time value of
  \<open>new Date(now + m * 60 * 1000)\<close>, computed in Number arithmetic and clipped to whole
  milliseconds by the Date constructor; when \<open>m\<close> is a whole number (and the clock
  reading a valid time value), this is exactly \<open>now + m * 60 * 1000\<close>. A parse failure
  or a value \<open>\<le> 0\<close> is answered 400 with nothing done. A zero-minute offset yields
  exactly the current instant.
\<close>

theorem scheduled_for_offset:
  "(store (snd (set_reminder e req w)) = store w
      \<or> (\<exists>r q. store (snd (set_reminder e req w)) = store w @ [r]
            \<and> parseReminderTime (req_reminderMinutes req) = Inr (Some (Fin q)) \<and> 0 < q
            \<and> calculateReminderTime (now e) (Fin q) = Date (scheduledFor r)
            \<and> (\<forall>k. q = of_int k \<and> \<bar>now e\<bar> \<le> 8640000000000000 \<longrightarrow>
                  scheduledFor r = now e + k * 60 * 1000)))
   \<and> (parseReminderTime (req_reminderMinutes req) = Inr None
        \<or> (\<exists>m. parseReminderTime (req_reminderMinutes req) = Inr (Some m) \<and> js_le m (Fin 0)) \<longrightarrow>
      status (fst (set_reminder e req w)) = 400 \<and> snd (set_reminder e req w) = w)
   \<and> (\<bar>t\<bar> \<le> 8640000000000000 \<longrightarrow> calculateReminderTime t (Fin 0) = Date t)"
proof -
  have first: "store (snd (set_reminder e req w)) = store w
      \<or> (\<exists>r q. store (snd (set_reminder e req w)) = store w @ [r]
            \<and> parseReminderTime (req_reminderMinutes req) = Inr (Some (Fin q)) \<and> 0 < q
            \<and> calculateReminderTime (now e) (Fin q) = Date (scheduledFor r)
            \<and> (\<forall>k. q = of_int k \<and> \<bar>now e\<bar> \<le> 8640000000000000 \<longrightarrow>
                  scheduledFor r = now e + k * 60 * 1000))"
  proof (cases "store (snd (set_reminder e req w)) = store w")
    case True
    then show ?thesis by simp
  next
    case False
    then obtain em url minutes where
      p: "parseReminderTime (req_reminderMinutes req) = Inr (Some minutes)"
      and tr: "truthy (req_reminderMinutes req)"
      and pos: "\<not> js_le minutes (Fin 0)"
      and s: "set_reminder e req w = schedule e em url (req_problemTitle req) minutes w"
      using set_reminder_outcomes [of e req w] by auto
    from False obtain t where
      t: "calculateReminderTime (now e) minutes = Date t"
      and st: "store (snd (set_reminder e req w))
          = store w @ [new_Reminder e em url (req_problemTitle req) t (store w)]"
      unfolding s schedule_outcomes Let_def
      by (auto split: jsdate.splits if_splits)
    from t obtain q where q: "minutes = Fin q"
      by (cases minutes) (simp_all add: calculate_not_finite)
    have qpos: "0 < q" using pos by (simp add: q)
    define r where "r = new_Reminder e em url (req_problemTitle req) t (store w)"
    have sf: "scheduledFor r = t" by (simp add: r_def new_Reminder_def)
    have exact: "t = now e + k * 60 * 1000" if "q = of_int k" "\<bar>now e\<bar> \<le> 8640000000000000" for k
    proof -
      have "0 < k" using qpos that(1) by simp
      then show ?thesis
        using calculate_whole_total [OF _ that(2)] t by (simp add: q that(1) split: if_splits)
    qed
    have "store (snd (set_reminder e req w)) = store w @ [r]
        \<and> parseReminderTime (req_reminderMinutes req) = Inr (Some (Fin q)) \<and> 0 < q
        \<and> calculateReminderTime (now e) (Fin q) = Date (scheduledFor r)
        \<and> (\<forall>k. q = of_int k \<and> \<bar>now e\<bar> \<le> 8640000000000000 \<longrightarrow>
              scheduledFor r = now e + k * 60 * 1000)"
      unfolding sf using st p t exact qpos by (simp add: q r_def)
    then show ?thesis by blast
  qed
  have second: "status (fst (set_reminder e req w)) = 400 \<and> snd (set_reminder e req w) = w"
    if "parseReminderTime (req_reminderMinutes req) = Inr None
        \<or> (\<exists>m. parseReminderTime (req_reminderMinutes req) = Inr (Some m) \<and> js_le m (Fin 0))"
    using that
    by (auto simp add: set_reminder_def respond_def split: option.splits sum.splits)
  have third: "calculateReminderTime t (Fin 0) = Date t" if "\<bar>t\<bar> \<le> 8640000000000000"
  proof -
    have "\<bar>t\<bar> + 0 * 60000 < 2 ^ 53" using that by simp
    then show ?thesis using calculate_whole [of 0 t] that by simp
  qed
  show ?thesis using first second third by blast
qed

text \<open>
  Instances: at the instant 1700000000000 a request for \<open>"2h"\<close> stores a record
  scheduled for 1700007200000; a request for \<open>"0m"\<close> is answered 400.
\<close>

theorem scheduled_for_offset_witness:
  "map scheduledFor (store (snd (set_reminder (example_env all_ok all_ok)
      (example_request (JStr (js ''2h''))) empty_world))) = [1700007200000]
   \<and> fst (set_reminder (example_env all_ok all_ok) (example_request (JStr (js ''0m''))) empty_world)
      = respond 400 InvalidReminderTime
   \<and> calculateReminderTime 1700000000000 (Fin 0) = Date 1700000000000"
proof -
  have ne: "js ''a@b.c'' \<noteq> []" "js ''https://leetcode.com/problems/two-sum'' \<noteq> []"
    "js ''2h'' \<noteq> []" "js ''0m'' \<noteq> []"
    by (simp_all add: js_def)
  have p: "parseReminderTime (JStr (js ''2h'')) = Inr (Some (Fin 120))"
    "parseReminderTime (JStr (js ''0m'')) = Inr (Some (Fin 0))"
    by (simp_all add: eval_defs)
  have c: "calculateReminderTime 1700000000000 (Fin 120) = Date 1700007200000"
    using calculate_whole [of 120 1700000000000] by simp
  have n: "now (example_env all_ok all_ok) = 1700000000000" by (simp add: example_env_def)
  have st: "length (store (snd (set_reminder (example_env all_ok all_ok)
      (example_request (JStr (js ''2h''))) empty_world))) = 1"
    by (simp add: set_reminder_def example_request_def p ne schedule_outcomes Let_def n c)
      (simp add: example_env_def all_ok_def empty_world_def)
  have z: "fst (set_reminder (example_env all_ok all_ok) (example_request (JStr (js ''0m''))) empty_world)
      = respond 400 InvalidReminderTime"
    by (simp add: set_reminder_def example_request_def p ne)
  note T = scheduled_for_offset [of "example_env all_ok all_ok" "example_request (JStr (js ''2h''))"
      empty_world 1700000000000]
  have rq: "req_reminderMinutes (example_request (JStr (js ''2h''))) = JStr (js ''2h'')"
    by (simp add: example_request_def)
  have e: "store empty_world = []" by (simp add: empty_world_def)
  from T st obtain r q where
    s: "store (snd (set_reminder (example_env all_ok all_ok)
        (example_request (JStr (js ''2h''))) empty_world)) = [r]"
    and q: "Inr (Some (Fin 120)) = (Inr (Some (Fin q)) :: exn + jsnum option)"
    and x: "\<forall>k. q = of_int k \<and> \<bar>1700000000000\<bar> \<le> (8640000000000000 :: int) \<longrightarrow>
        scheduledFor r = 1700000000000 + k * 60 * 1000"
    unfolding rq p n e by auto
  have "q = of_int 120" using q by simp
  then have "scheduledFor r = 1700007200000" using x [rule_format, of 120] by simp
  moreover have "calculateReminderTime 1700000000000 (Fin 0) = Date 1700000000000"
    using T by simp
  ultimately show ?thesis using s z by simp
qed

lemma calculate_fraction:
  "calculateReminderTime 1700000000000 (Fin (1 / 1024)) = Date 1700000000058"
proof -
  have m1: "js_mul (Fin (1 / 1024)) (Fin 60) = Fin (15 / 256)"
    using round_double_dyadic [of 15 8] by simp
  have m2: "js_mul (Fin (15 / 256)) (Fin 1000) = Fin (1875 / 32)"
    using round_double_dyadic [of 1875 5] by simp
  have m3: "js_add (Fin (of_int 1700000000000)) (Fin (1875 / 32)) = Fin (54400000001875 / 32)"
    using round_double_dyadic [of 54400000001875 5] by simp
  have fl: "\<lfloor>54400000001875 / 32 :: rat\<rfloor> = 1700000000058"
    by (rule floor_unique) simp_all
  show ?thesis
    unfolding calculateReminderTime_def m1 m2 m3
    by (simp add: new_Date_def to_integer_def fl)
qed

text \<open>
  The claim as stated fails for a fractional numeric input: with
  \<open>reminderMinutes = 0.0009765625\<close> (that is \<open>1 / 1024\<close>) at the instant 1700000000000
  the request succeeds and the stored \<open>scheduledFor\<close> is 1700000000058, while
  \<open>now + m * 60 * 1000\<close> is 1700000000058.59375.
\<close>

theorem fraction_offset_counterexample:
  "fst (set_reminder (example_env all_ok all_ok) (example_request (JNum (Fin (1 / 1024)))) empty_world)
      = respond 200 (ReminderSet (js ''11/14/23, 10:13 PM''))
   \<and> map scheduledFor (store (snd (set_reminder (example_env all_ok all_ok)
        (example_request (JNum (Fin (1 / 1024)))) empty_world))) = [1700000000058]
   \<and> now (example_env all_ok all_ok) = 1700000000000
   \<and> (1700000000058 :: rat) \<noteq> 1700000000000 + (1 / 1024) * 60 * 1000"
proof -
  have ne: "js ''a@b.c'' \<noteq> []" "js ''https://leetcode.com/problems/two-sum'' \<noteq> []"
    by (simp_all add: js_def)
  have p: "parseReminderTime (JNum (Fin (1 / 1024))) = Inr (Some (Fin (1 / 1024)))"
    by (simp add: parseReminderTime_def)
  have n: "now (example_env all_ok all_ok) = 1700000000000" by (simp add: example_env_def)
  have s: "set_reminder (example_env all_ok all_ok) (example_request (JNum (Fin (1 / 1024)))) empty_world
      = schedule (example_env all_ok all_ok) (js ''a@b.c'') (js ''https://leetcode.com/problems/two-sum'')
          None (Fin (1 / 1024)) empty_world"
    by (simp add: set_reminder_def example_request_def p ne)
  show ?thesis
    unfolding s schedule_outcomes Let_def n calculate_fraction
    by (simp add: example_env_def all_ok_def empty_world_def new_Reminder_def)
qed


section \<open>The life of a record\<close>













end
